theory Spec2Isabelle
  imports Complex_Main "HOL-Library.Monad_Syntax"
begin

section \<open>Common modelling conventions\<close>

text \<open>
  \<^verbatim>\<open>amrex::Real\<close> and \<^verbatim>\<open>amrex::ParticleReal\<close> are modelled by the mathematical
  reals: every claim treated below is about control flow, copying of values and the algebraic
  form of the expressions, not about rounding.  Where the source produces a value that is
  not a real number (a quiet NaN, the result of a division by zero) the model says so
  explicitly instead of relying on the total functions of HOL.

  \<^verbatim>\<open>amrex::Abort\<close> terminates the process; a function that may reach it returns
  \<open>error + 'a\<close> with \<open>Inl (Abort msg)\<close> for the terminated run.  A read or write outside
  the bounds of a buffer is undefined behaviour in C++ and is the error \<open>OutOfBounds\<close>; a
  read of a buffer entry that was never written is \<open>UninitialisedRead\<close>.  Levels, particle
  indices, offsets and counts are never negative and are natural numbers.
\<close>

datatype error = Abort string | OutOfBounds | UninitialisedRead

text \<open>
  The physical constants of \<^verbatim>\<open>Utils/WarpXConst.H\<close> (namespace \<^verbatim>\<open>PhysConst\<close>).  The header
  is not part of the sources at hand, so the constants are a parameter of every function
  that reads them; the speed of light is the field \<open>c0\<close>.
\<close>

record PhysConst =
  c0 :: real
  ep0 :: real
  q_e :: real
  m_e :: real
  m_p :: real
  hbar :: real

text \<open>The CODATA 2018 values, used for concrete evaluations.\<close>

definition codata :: PhysConst where
  "codata = \<lparr> c0 = 299792458, ep0 = 8.8541878128 / 10 ^ 12, q_e = 1.602176634 / 10 ^ 19,
              m_e = 9.1093837015 / 10 ^ 31, m_p = 1.67262192369 / 10 ^ 27,
              hbar = 1.054571817 / 10 ^ 34 \<rparr>"

section \<open>Physical species (SpeciesPhysicalProperties.H)\<close>

datatype PhysicalSpecies = unspecified | electron | positron | photon | hydrogen | helium
  | boron | carbon | nitrogen | oxygen | copper

text \<open>A value of type \<^verbatim>\<open>amrex::Real\<close> that may be the quiet NaN.\<close>

datatype Real_or_NaN = quiet_NaN | Val real

definition from_string :: "string \<Rightarrow> error + PhysicalSpecies" where
  "from_string species =
    (if species = ''unspecified'' then Inr unspecified
     else if species = ''electron'' then Inr electron
     else if species = ''positron'' then Inr positron
     else if species = ''photon'' then Inr photon
     else if species = ''hydrogen'' then Inr hydrogen
     else if species = ''proton'' then Inr hydrogen
     else if species = ''helium'' then Inr helium
     else if species = ''alpha'' then Inr helium
     else if species = ''boron'' then Inr boron
     else if species = ''carbon'' then Inr carbon
     else if species = ''nitrogen'' then Inr nitrogen
     else if species = ''oxygen'' then Inr oxygen
     else if species = ''copper'' then Inr copper
     else Inl (Abort ''unknown PhysicalSpecies''))"

text \<open>
  The \<^verbatim>\<open>switch\<close> statements of \<^verbatim>\<open>get_charge\<close>, \<^verbatim>\<open>get_mass\<close> and \<^verbatim>\<open>get_name\<close> have one
  \<^verbatim>\<open>case\<close> per enumerator; their \<^verbatim>\<open>default\<close> branch (the only one that aborts) is
  taken by no value of the enumeration, hence has no equation here.
\<close>

fun get_charge :: "PhysConst \<Rightarrow> PhysicalSpecies \<Rightarrow> error + Real_or_NaN" where
  "get_charge pc unspecified = Inr quiet_NaN"
| "get_charge pc electron = Inr (Val (- q_e pc))"
| "get_charge pc positron = Inr (Val (q_e pc))"
| "get_charge pc photon = Inr (Val 0)"
| "get_charge pc hydrogen = Inr (Val (q_e pc))"
| "get_charge pc helium = Inr (Val (q_e pc * 2.0))"
| "get_charge pc boron = Inr (Val (q_e pc * 5.0))"
| "get_charge pc carbon = Inr (Val (q_e pc * 6.0))"
| "get_charge pc nitrogen = Inr (Val (q_e pc * 7.0))"
| "get_charge pc oxygen = Inr (Val (q_e pc * 8.0))"
| "get_charge pc copper = Inr (Val (q_e pc * 29.0))"

fun get_mass :: "PhysConst \<Rightarrow> PhysicalSpecies \<Rightarrow> error + Real_or_NaN" where
  "get_mass pc unspecified = Inr quiet_NaN"
| "get_mass pc electron = Inr (Val (m_e pc))"
| "get_mass pc positron = Inr (Val (m_e pc))"
| "get_mass pc photon = Inr (Val 0)"
| "get_mass pc hydrogen = Inr (Val (m_p pc))"
| "get_mass pc helium = Inr (Val (m_p pc * 3.97369))"
| "get_mass pc boron = Inr (Val (m_p pc * 10.7319))"
| "get_mass pc carbon = Inr (Val (m_e pc * 22032.0))"
| "get_mass pc nitrogen = Inr (Val (m_e pc * 25716.9))"
| "get_mass pc oxygen = Inr (Val (m_p pc * 15.8834))"
| "get_mass pc copper = Inr (Val (m_p pc * 63.0864))"

fun get_name :: "PhysicalSpecies \<Rightarrow> error + string" where
  "get_name unspecified = Inr ''unspecified''"
| "get_name electron = Inr ''electron''"
| "get_name positron = Inr ''positron''"
| "get_name photon = Inr ''photon''"
| "get_name hydrogen = Inr ''hydrogen''"
| "get_name helium = Inr ''helium''"
| "get_name boron = Inr ''boron''"
| "get_name carbon = Inr ''carbon''"
| "get_name nitrogen = Inr ''nitrogen''"
| "get_name oxygen = Inr ''oxygen''"
| "get_name copper = Inr ''copper''"

text \<open>\<^verbatim>\<open>get_name(from_string(s))\<close>: an abort of the inner call ends the run.\<close>

definition name_of_string :: "string \<Rightarrow> error + string" where
  "name_of_string s = (case from_string s of Inl e \<Rightarrow> Inl e | Inr ps \<Rightarrow> get_name ps)"

definition canonical_names :: "string list" where
  "canonical_names = [''unspecified'', ''electron'', ''positron'', ''photon'', ''hydrogen'',
     ''helium'', ''boron'', ''carbon'', ''nitrogen'', ''oxygen'', ''copper'']"

definition accepted_names :: "string list" where
  "accepted_names = canonical_names @ [''proton'', ''alpha'']"

section \<open>Macroscopic properties and the macroscopic field accessor\<close>

datatype MacroparameterInitType = ConstantValue | ParserFunction

text \<open>\<^verbatim>\<open>amrex::ParserExecutor<3>\<close> is a compiled scalar expression of \<open>(x, y, z)\<close>.\<close>

record GetMacroparameter =
  m_type :: MacroparameterInitType
  m_value :: real
  m_parser :: "real \<Rightarrow> real \<Rightarrow> real \<Rightarrow> real"

definition GetMacroparameter_call ::
    "GetMacroparameter \<Rightarrow> real \<Rightarrow> real \<Rightarrow> real \<Rightarrow> error + real" where
  "GetMacroparameter_call g x y z =
    (if m_type g = ConstantValue then Inr (m_value g)
     else if m_type g = ParserFunction then Inr (m_parser g x y z)
     else Inl (Abort ''macroparameter init type not valid.''))"

text \<open>
  An \<^verbatim>\<open>amrex::Array4\<close> is a view of a box of cells: a partial map from the index
  \<open>(i, j, k, ncomp)\<close> to the stored value, undefined outside the box.
\<close>

type_synonym Array4 = "int \<times> int \<times> int \<times> int \<rightharpoonup> real"

type_synonym vec3 = "real \<times> real \<times> real"

record FieldAccessorMacroscopic =
  m_field :: Array4
  m_getParameter :: GetMacroparameter
  m_field_stag :: "int \<times> int \<times> int"
  m_domain_lo :: vec3
  m_dx :: vec3

text \<open>
  The quotient of two finite floating-point numbers: a real number when the divisor is not
  zero, and otherwise an infinity or, for \<open>0 / 0\<close>, a NaN.
\<close>

datatype quotient = Quot real | Inf_or_NaN

definition fp_divide :: "real \<Rightarrow> real \<Rightarrow> quotient" where
  "fp_divide a b = (if b = 0 then Inf_or_NaN else Quot (a / b))"

text \<open>
  \<^verbatim>\<open>WarpXUtilAlgo::getCellCoordinates\<close> (Utils/WarpXUtil.H) is not among the sources at
  hand; it is the parameter \<open>getCellCoordinates\<close>, which receives what the call passes:
  the indices, the staggering, the lower corner and the cell size.
\<close>

definition FieldAccessorMacroscopic_call ::
    "(int \<Rightarrow> int \<Rightarrow> int \<Rightarrow> int \<times> int \<times> int \<Rightarrow> vec3 \<Rightarrow> vec3 \<Rightarrow> vec3) \<Rightarrow>
     FieldAccessorMacroscopic \<Rightarrow> int \<Rightarrow> int \<Rightarrow> int \<Rightarrow> int \<Rightarrow> error + quotient" where
  "FieldAccessorMacroscopic_call getCellCoordinates fa i j k ncomp =
    (case getCellCoordinates i j k (m_field_stag fa) (m_domain_lo fa) (m_dx fa) of
       (x, y, z) \<Rightarrow>
         (case m_field fa (i, j, k, ncomp) of
            None \<Rightarrow> Inl OutOfBounds
          | Some v \<Rightarrow>
              (case GetMacroparameter_call (m_getParameter fa) x y z of
                 Inl e \<Rightarrow> Inl e
               | Inr p \<Rightarrow> Inr (fp_divide v p))))"

section \<open>Proton-boron fusion cross section\<close>

text \<open>
  Floating literals are written as decimal fractions (\<^verbatim>\<open>1.82e4\<close> is \<open>18200\<close>,
  \<^verbatim>\<open>2.31e-4\<close> is \<open>0.000231\<close>).  Every division of the source is a \<open>checked_div\<close>: the
  computation is in the option monad and \<open>None\<close> is a run that executed a division by
  zero.  A run that divides by non-zero values only returns \<open>Some\<close> of its value, which is
  a NaN when \<^verbatim>\<open>std::sqrt\<close> received a negative argument.
\<close>

definition checked_div :: "real \<Rightarrow> real \<Rightarrow> real option" where
  "checked_div a b = (if b = 0 then None else Some (a / b))"

definition gamow_factor :: "PhysConst \<Rightarrow> real \<Rightarrow> real option" where
  "gamow_factor pc joule_to_mev = do {
     let Z_boron = 5;
     let m_boron = 10.7319 * m_p pc;
     r \<leftarrow> checked_div m_boron (m_p pc);
     m_reduced \<leftarrow> checked_div m_boron (1 + r);
     h \<leftarrow> checked_div m_reduced 2;
     w \<leftarrow> checked_div (q_e pc * q_e pc * Z_boron) (2 * ep0 pc * hbar pc);
     Some (h * w * w * joule_to_mev)
   }"

definition astrophysical_factor :: "real \<Rightarrow> real option" where
  "astrophysical_factor E_kev =
    (if E_kev < 400 then do {
       t \<leftarrow> checked_div 18200 ((E_kev - 148) * (E_kev - 148) + 2.35 * 2.35);
       Some (197 + 0.24 * E_kev + 0.000231 * E_kev * E_kev + t)
     }
     else if E_kev < 642 then do {
       let E_norm = (E_kev - 400) * 0.01;
       Some (330 + 66.1 * E_norm + (- 20.3) * E_norm * E_norm + (- 1.58) * E_norm ^ 5)
     }
     else do {
       t0 \<leftarrow> checked_div 2570000 ((E_kev - 581.3) * (E_kev - 581.3) + 85.7 * 85.7);
       t1 \<leftarrow> checked_div 567000 ((E_kev - 1083) * (E_kev - 1083) + 234 * 234);
       t2 \<leftarrow> checked_div 134000 ((E_kev - 2405) * (E_kev - 2405) + 138 * 138);
       t3 \<leftarrow> checked_div 568000 ((E_kev - 3344) * (E_kev - 3344) + 309 * 309);
       Some (t0 + t1 + t2 + t3 + 4.38)
     })"

definition ProtonBoronFusionCrossSection :: "PhysConst \<Rightarrow> real \<Rightarrow> Real_or_NaN option" where
  "ProtonBoronFusionCrossSection pc E_kin_star =
    (if E_kin_star = 0 then Some (Val 0)
     else do {
       joule_to_kev \<leftarrow> checked_div 0.001 (q_e pc);
       joule_to_mev \<leftarrow> checked_div 0.000001 (q_e pc);
       let E_kev = E_kin_star * joule_to_kev;
       let E_mev = E_kin_star * joule_to_mev;
       gamow \<leftarrow> gamow_factor pc joule_to_mev;
       astrophysical \<leftarrow> astrophysical_factor E_kev;
       s \<leftarrow> checked_div astrophysical E_mev;
       g \<leftarrow> checked_div gamow E_mev;
       let barn_to_sqm = 1 / 10 ^ 28;
       Some (if g < 0 then quiet_NaN else Val (s * exp (- sqrt g) * barn_to_sqm))
     })"

section \<open>Rigid injection (RigidInjectedParticleContainer.cpp)\<close>

subsection \<open>Particles, tiles and parallel loops\<close>

text \<open>
  A tile holds \<^verbatim>\<open>pti.numParticles()\<close> particles; slot \<open>i\<close> carries the position read by
  \<^verbatim>\<open>GetPosition(i, xp, yp, zp)\<close> and written by \<^verbatim>\<open>SetPosition(i, xp, yp, zp)\<close> and the
  momentum attributes \<^verbatim>\<open>attribs[PIdx::ux][i]\<close>, \<^verbatim>\<open>uy\<close>, \<^verbatim>\<open>uz\<close> (three-dimensional Cartesian
  build, where both accessors are plain reads and writes).
\<close>

record particle =
  p_x :: real
  p_y :: real
  p_z :: real
  p_ux :: real
  p_uy :: real
  p_uz :: real

type_synonym tile = "particle list"

text \<open>
  \<^verbatim>\<open>amrex::ParallelFor(n, body)\<close> runs \<open>body i\<close> for every \<open>i < n\<close>.  The model runs the
  indices in increasing order and stops at the first failing one.  In each loop of this
  file two different indices touch different slots, so the order makes no difference.
\<close>

fun ParallelFor :: "nat \<Rightarrow> (nat \<Rightarrow> 's \<Rightarrow> error + 's) \<Rightarrow> 's \<Rightarrow> error + 's" where
  "ParallelFor 0 body s = Inr s"
| "ParallelFor (Suc n) body s =
     (case ParallelFor n body s of Inl e \<Rightarrow> Inl e | Inr s' \<Rightarrow> body n s')"

subsection \<open>Run-time configuration and container state\<close>

text \<open>
  \<^verbatim>\<open>WarpX::particle_pusher_algo\<close> is compared with the enumerators \<^verbatim>\<open>Boris\<close>, \<^verbatim>\<open>Vay\<close> and
  \<^verbatim>\<open>HigueraCary\<close> of \<^verbatim>\<open>ParticlePusherAlgo\<close> (Utils/WarpXAlgorithmSelection.H, not among the
  sources at hand); \<open>UnknownPusher\<close> stands for every other value it may hold.
\<close>

datatype ParticlePusherAlgo = Boris | Vay | HigueraCary | UnknownPusher

text \<open>The static members of class \<^verbatim>\<open>WarpX\<close> that the container reads.\<close>

record WarpX =
  gamma_boost :: real
  beta_boost :: real
  moving_window_v :: real
  particle_pusher_algo :: ParticlePusherAlgo

text \<open>
  The data members of the container: those declared for rigid injection and the members
  of the base class that \<^verbatim>\<open>PushP\<close> reads.
\<close>

record RigidInjectedParticleContainer =
  zinject_plane :: real
  rigid_advance :: bool
  vzbeam_ave_boosted :: real
  zinject_plane_levels :: "real list"
  zinject_plane_lev :: real
  zinject_plane_lev_previous :: real
  done_injecting_lev :: bool
  do_not_push :: bool
  do_classical_radiation_reaction :: bool
  do_field_ionization :: bool
  charge :: real
  mass :: real

text \<open>
  The functor \<^verbatim>\<open>ScaleFields\<close> is declared outside the sources at hand; it is the record of
  the five arguments of the constructor call \<^verbatim>\<open>ScaleFields(do_scale, dt, ...)\<close>.
\<close>

record ScaleFields =
  m_do_scale :: bool
  m_dt :: real
  m_z_plane_previous :: real
  m_vz_ave_boosted :: real
  m_v_boost :: real

subsection \<open>PushPX\<close>

text \<open>
  The six save vectors are indexed together, so they are one vector of saved slots; an
  entry is \<open>None\<close> until it is written (\<^verbatim>\<open>resize\<close> does not initialise).  The pointers
  \<^verbatim>\<open>ux\<close>, \<^verbatim>\<open>uy\<close>, \<^verbatim>\<open>uz\<close> and the six save pointers are shifted by \<open>offset\<close>, while
  \<^verbatim>\<open>GetPosition\<close> and \<^verbatim>\<open>SetPosition\<close> are not: kernel \<open>i\<close> reads the position of slot \<open>i\<close> and
  the momentum of slot \<open>offset + i\<close>, and stores both in entry \<open>offset + i\<close>.
\<close>

definition save_kernel :: "nat \<Rightarrow> tile \<Rightarrow> nat \<Rightarrow> particle option list \<Rightarrow> error + particle option list" where
  "save_kernel offset t i saved =
    (if offset + i < length t \<and> offset + i < length saved then
       Inr (saved[offset + i := Some \<lparr> p_x = p_x (t ! i), p_y = p_y (t ! i), p_z = p_z (t ! i),
                                       p_ux = p_ux (t ! (offset + i)),
                                       p_uy = p_uy (t ! (offset + i)),
                                       p_uz = p_uz (t ! (offset + i)) \<rparr>])
     else Inl OutOfBounds)"

text \<open>The first block of \<^verbatim>\<open>PushPX\<close>: the content of the save vectors before the push.\<close>

definition PushPX_save ::
    "RigidInjectedParticleContainer \<Rightarrow> nat \<Rightarrow> tile \<Rightarrow> error + particle option list" where
  "PushPX_save st offset t =
    (if \<not> done_injecting_lev st then
       (let np = length t in ParallelFor np (save_kernel offset t) (replicate np None))
     else Inr [])"

text \<open>The \<^verbatim>\<open>ScaleFields\<close> object handed to the generic push.\<close>

definition PushPX_scaleFields ::
    "PhysConst \<Rightarrow> WarpX \<Rightarrow> RigidInjectedParticleContainer \<Rightarrow> real \<Rightarrow> ScaleFields" where
  "PushPX_scaleFields pc W st dt =
    (let do_scale = \<not> done_injecting_lev st;
         v_boost = beta_boost W * c0 pc
     in \<lparr> m_do_scale = do_scale, m_dt = dt,
          m_z_plane_previous = zinject_plane_lev_previous st,
          m_vz_ave_boosted = vzbeam_ave_boosted st, m_v_boost = v_boost \<rparr>)"

text \<open>The kernel of the loop that undoes the push for particles not injected yet.\<close>

definition restore_kernel ::
    "PhysConst \<Rightarrow> real \<Rightarrow> real \<Rightarrow> bool \<Rightarrow> real \<Rightarrow> nat \<Rightarrow> particle option list \<Rightarrow>
     nat \<Rightarrow> tile \<Rightarrow> error + tile" where
  "restore_kernel pc z_plane_lev vz_ave_boosted rigid dt offset saved i t =
    (let inv_csq = 1 / (c0 pc * c0 pc);
         zp = p_z (t ! i)
     in if zp \<le> z_plane_lev then
          (if offset + i < length t \<and> offset + i < length saved then
             (case saved ! (offset + i) of
                None \<Rightarrow> Inl UninitialisedRead
              | Some s \<Rightarrow>
                  (let t1 = t[offset + i := (t ! (offset + i))
                                \<lparr> p_ux := p_ux s, p_uy := p_uy s, p_uz := p_uz s \<rparr>];
                       ux = p_ux (t1 ! (offset + i));
                       uy = p_uy (t1 ! (offset + i));
                       uz = p_uz (t1 ! (offset + i));
                       zp' = (if rigid then p_z s + dt * vz_ave_boosted
                              else (let gi = 1 / sqrt (1 + (ux * ux + uy * uy + uz * uz) * inv_csq)
                                    in p_z s + dt * uz * gi))
                   in Inr (t1[i := (t1 ! i) \<lparr> p_x := p_x s, p_y := p_y s, p_z := zp' \<rparr>])))
           else Inl OutOfBounds)
        else Inr t)"

text \<open>
  \<^verbatim>\<open>PhysicalParticleContainer::PushPX\<close> is not among the sources at hand: it is the parameter
  \<open>ppc_PushPX\<close>, applied to the arguments that the call site passes, namely the field data
  and the other values handed through unchanged (\<open>thru\<close>: the six \<^verbatim>\<open>FArrayBox\<close> pointers,
  \<^verbatim>\<open>ngE\<close>, \<^verbatim>\<open>e_is_nodal\<close>, \<^verbatim>\<open>lev\<close>, \<^verbatim>\<open>gather_lev\<close>, \<^verbatim>\<open>a_dt_type\<close>), \<open>offset\<close>, \<open>np_to_push\<close>,
  \<open>dt\<close> and the \<^verbatim>\<open>ScaleFields\<close> object.  It may abort.
\<close>

definition PushPX ::
    "('a \<Rightarrow> nat \<Rightarrow> nat \<Rightarrow> real \<Rightarrow> ScaleFields \<Rightarrow> tile \<Rightarrow> error + tile) \<Rightarrow>
     PhysConst \<Rightarrow> WarpX \<Rightarrow> RigidInjectedParticleContainer \<Rightarrow>
     'a \<Rightarrow> nat \<Rightarrow> nat \<Rightarrow> real \<Rightarrow> tile \<Rightarrow> error + tile" where
  "PushPX ppc_PushPX pc W st thru offset np_to_push dt t =
    (case PushPX_save st offset t of
       Inl e \<Rightarrow> Inl e
     | Inr saved \<Rightarrow>
         (case ppc_PushPX thru offset np_to_push dt (PushPX_scaleFields pc W st dt) t of
            Inl e \<Rightarrow> Inl e
          | Inr pushed \<Rightarrow>
              (if \<not> done_injecting_lev st then
                 ParallelFor (length pushed)
                   (restore_kernel pc (zinject_plane_lev st) (vzbeam_ave_boosted st)
                      (rigid_advance st) dt offset saved) pushed
               else Inr pushed)))"

subsection \<open>Evolve\<close>

text \<open>
  \<open>plo\<close> and \<open>phi\<close> are \<^verbatim>\<open>Geom(lev).ProbLo()[zdir]\<close> and \<^verbatim>\<open>Geom(lev).ProbHi()[zdir]\<close> at the
  time of the call.  \<^verbatim>\<open>PhysicalParticleContainer::Evolve\<close> is the parameter \<open>ppc_Evolve\<close>:
  it receives the container as the first block of \<^verbatim>\<open>Evolve\<close> left it (its virtual call
  of \<^verbatim>\<open>PushPX\<close> reads these members and writes none of them), the level, \<open>dt\<close> and the
  particle and field data \<open>d\<close>, and returns the new data unless it aborts.
\<close>

definition Evolve_plane ::
    "PhysConst \<Rightarrow> WarpX \<Rightarrow> real \<Rightarrow> real \<Rightarrow> nat \<Rightarrow> real \<Rightarrow>
     RigidInjectedParticleContainer \<Rightarrow> error + RigidInjectedParticleContainer" where
  "Evolve_plane pc W plo phi lev dt st =
    (if lev < length (zinject_plane_levels st) then
       (let st1 = st \<lparr> zinject_plane_lev_previous := zinject_plane_levels st ! lev \<rparr>;
            st2 = st1 \<lparr> zinject_plane_levels :=
                     (zinject_plane_levels st1)
                       [lev := zinject_plane_levels st1 ! lev - dt * beta_boost W * c0 pc] \<rparr>;
            st3 = st2 \<lparr> zinject_plane_lev := zinject_plane_levels st2 ! lev \<rparr>
        in Inr (st3 \<lparr> done_injecting_lev :=
                   ((zinject_plane_levels st3 ! lev < plo \<and>
                       moving_window_v W + beta_boost W * c0 pc \<ge> 0) \<or>
                    (zinject_plane_levels st3 ! lev > phi \<and>
                       moving_window_v W + beta_boost W * c0 pc \<le> 0)) \<rparr>))
     else Inl OutOfBounds)"

definition Evolve ::
    "(RigidInjectedParticleContainer \<Rightarrow> nat \<Rightarrow> real \<Rightarrow> 'd \<Rightarrow> error + 'd) \<Rightarrow>
     PhysConst \<Rightarrow> WarpX \<Rightarrow> real \<Rightarrow> real \<Rightarrow> nat \<Rightarrow> real \<Rightarrow>
     RigidInjectedParticleContainer \<times> 'd \<Rightarrow> error + RigidInjectedParticleContainer \<times> 'd" where
  "Evolve ppc_Evolve pc W plo phi lev dt sd =
    (case Evolve_plane pc W plo phi lev dt (fst sd) of
       Inl e \<Rightarrow> Inl e
     | Inr st' \<Rightarrow>
         (case ppc_Evolve st' lev dt (snd sd) of
            Inl e \<Rightarrow> Inl e
          | Inr d' \<Rightarrow> Inr (st', d')))"

text \<open>
  A sequence of time steps on one level; each step comes with its \<open>dt\<close> and with the
  domain bounds \<open>(plo, phi)\<close> that the geometry reports at that step.
\<close>

fun Evolve_steps ::
    "(RigidInjectedParticleContainer \<Rightarrow> nat \<Rightarrow> real \<Rightarrow> 'd \<Rightarrow> error + 'd) \<Rightarrow>
     PhysConst \<Rightarrow> WarpX \<Rightarrow> nat \<Rightarrow> (real \<times> real \<times> real) list \<Rightarrow>
     RigidInjectedParticleContainer \<times> 'd \<Rightarrow> error + RigidInjectedParticleContainer \<times> 'd" where
  "Evolve_steps ppc_Evolve pc W lev [] sd = Inr sd"
| "Evolve_steps ppc_Evolve pc W lev ((dt, plo, phi) # steps) sd =
     (case Evolve ppc_Evolve pc W plo phi lev dt sd of
        Inl e \<Rightarrow> Inl e
      | Inr sd' \<Rightarrow> Evolve_steps ppc_Evolve pc W lev steps sd')"

subsection \<open>PushP\<close>

text \<open>
  The field gather, the external-field functors and the four momentum updates live in
  headers that are not among the sources at hand; they are the fields of the parameter
  \<open>K\<close>.  \<open>'f\<close> is what a tile contributes to them: its six field arrays with their
  index types, the grid geometry, the interpolation settings and the external-field
  functors.  A momentum update receives the momentum, \<open>E\<close>, \<open>B\<close>, \<open>q\<close>, \<open>m\<close> and \<open>dt\<close> and
  returns the momentum it leaves in \<^verbatim>\<open>ux\<close>, \<^verbatim>\<open>uy\<close>, \<^verbatim>\<open>uz\<close>.
\<close>

record 'f push_kernels =
  doGatherShapeN :: "'f \<Rightarrow> vec3 \<Rightarrow> vec3 \<times> vec3"
  getExternalE :: "'f \<Rightarrow> nat \<Rightarrow> vec3 \<Rightarrow> vec3"
  getExternalB :: "'f \<Rightarrow> nat \<Rightarrow> vec3 \<Rightarrow> vec3"
  UpdateMomentumBoris :: "vec3 \<Rightarrow> vec3 \<Rightarrow> vec3 \<Rightarrow> real \<Rightarrow> real \<Rightarrow> real \<Rightarrow> vec3"
  UpdateMomentumVay :: "vec3 \<Rightarrow> vec3 \<Rightarrow> vec3 \<Rightarrow> real \<Rightarrow> real \<Rightarrow> real \<Rightarrow> vec3"
  UpdateMomentumHigueraCary :: "vec3 \<Rightarrow> vec3 \<Rightarrow> vec3 \<Rightarrow> real \<Rightarrow> real \<Rightarrow> real \<Rightarrow> vec3"
  UpdateMomentumBorisWithRadiationReaction ::
    "vec3 \<Rightarrow> vec3 \<Rightarrow> vec3 \<Rightarrow> real \<Rightarrow> real \<Rightarrow> real \<Rightarrow> vec3"

definition momentum :: "particle \<Rightarrow> vec3" where
  "momentum p = (p_ux p, p_uy p, p_uz p)"

definition position :: "particle \<Rightarrow> vec3" where
  "position p = (p_x p, p_y p, p_z p)"

definition set_momentum :: "particle \<Rightarrow> vec3 \<Rightarrow> particle" where
  "set_momentum p u = (case u of (a, b, c) \<Rightarrow> p \<lparr> p_ux := a, p_uy := b, p_uz := c \<rparr>)"

text \<open>
  The first kernel of \<^verbatim>\<open>PushP\<close>; its state is the tile and the three save vectors (one
  vector of saved momenta).  \<open>ion_lev\<close> is \<open>None\<close> for the null pointer.  The tile and the
  save vectors have \<open>np\<close> entries and \<open>ip < np\<close>.
\<close>

definition PushP_kernel ::
    "'f push_kernels \<Rightarrow> WarpX \<Rightarrow> RigidInjectedParticleContainer \<Rightarrow> 'f \<Rightarrow> int list option \<Rightarrow>
     real \<Rightarrow> nat \<Rightarrow> tile \<times> vec3 option list \<Rightarrow> error + tile \<times> vec3 option list" where
  "PushP_kernel K W st f ion_lev dt ip s =
    (case s of (t, saved) \<Rightarrow>
      (let saved' = saved[ip := Some (momentum (t ! ip))];
           EB = doGatherShapeN K f (position (t ! ip));
           E = getExternalE K f ip (fst EB);
           B = getExternalB K f ip (snd EB);
           q = charge st;
           m = mass st
       in case (case ion_lev of
                  None \<Rightarrow> Inr q
                | Some il \<Rightarrow> if ip < length il then Inr (q * of_int (il ! ip))
                              else Inl OutOfBounds) of
            Inl e \<Rightarrow> Inl e
          | Inr qp \<Rightarrow>
              (if do_classical_radiation_reaction st then
                 Inr (t[ip := set_momentum (t ! ip)
                        (UpdateMomentumBorisWithRadiationReaction K (momentum (t ! ip)) E B qp m dt)],
                      saved')
               else if particle_pusher_algo W = Boris then
                 Inr (t[ip := set_momentum (t ! ip)
                        (UpdateMomentumBoris K (momentum (t ! ip)) E B qp m dt)], saved')
               else if particle_pusher_algo W = Vay then
                 Inr (t[ip := set_momentum (t ! ip)
                        (UpdateMomentumVay K (momentum (t ! ip)) E B qp m dt)], saved')
               else if particle_pusher_algo W = HigueraCary then
                 Inr (t[ip := set_momentum (t ! ip)
                        (UpdateMomentumHigueraCary K (momentum (t ! ip)) E B qp m dt)], saved')
               else Inl (Abort ''Unknown particle pusher''))))"

text \<open>The second kernel: undo the push for particles not injected yet.\<close>

definition PushP_undo_kernel :: "real \<Rightarrow> vec3 option list \<Rightarrow> nat \<Rightarrow> tile \<Rightarrow> error + tile" where
  "PushP_undo_kernel zz saved i t =
    (if p_z (t ! i) \<le> zz then
       (case saved ! i of
          None \<Rightarrow> Inl UninitialisedRead
        | Some u \<Rightarrow> Inr (t[i := set_momentum (t ! i) u]))
     else Inr t)"

text \<open>
  The body of the loop over the tiles of the level.  \<open>il\<close> is the tile's integer
  component \<^verbatim>\<open>ionization_level\<close>, looked at only when field ionisation is on.
\<close>

definition PushP_tile ::
    "'f push_kernels \<Rightarrow> WarpX \<Rightarrow> RigidInjectedParticleContainer \<Rightarrow> nat \<Rightarrow> real \<Rightarrow>
     'f \<Rightarrow> int list \<Rightarrow> tile \<Rightarrow> error + tile" where
  "PushP_tile K W st lev dt f il t =
    (let np = length t;
         ion_lev = (if do_field_ionization st then Some il else None)
     in case ParallelFor np (PushP_kernel K W st f ion_lev dt) (t, replicate np None) of
          Inl e \<Rightarrow> Inl e
        | Inr (t1, saved) \<Rightarrow>
            (if lev < length (zinject_plane_levels st) then
               ParallelFor (length t1)
                 (PushP_undo_kernel (zinject_plane_levels st ! lev) saved) t1
             else Inl OutOfBounds))"

fun PushP_tiles ::
    "'f push_kernels \<Rightarrow> WarpX \<Rightarrow> RigidInjectedParticleContainer \<Rightarrow> nat \<Rightarrow> real \<Rightarrow>
     ('f \<times> int list \<times> tile) list \<Rightarrow> error + tile list" where
  "PushP_tiles K W st lev dt [] = Inr []"
| "PushP_tiles K W st lev dt ((f, il, t) # tiles) =
     (case PushP_tile K W st lev dt f il t of
        Inl e \<Rightarrow> Inl e
      | Inr t' \<Rightarrow>
          (case PushP_tiles K W st lev dt tiles of
             Inl e \<Rightarrow> Inl e
           | Inr ts \<Rightarrow> Inr (t' # ts)))"

definition PushP ::
    "'f push_kernels \<Rightarrow> WarpX \<Rightarrow> RigidInjectedParticleContainer \<Rightarrow> nat \<Rightarrow> real \<Rightarrow>
     ('f \<times> int list \<times> tile) list \<Rightarrow> error + tile list" where
  "PushP K W st lev dt tiles =
    (if do_not_push st then Inr (map (\<lambda>x. snd (snd x)) tiles)
     else PushP_tiles K W st lev dt tiles)"

subsection \<open>Conditions on a run and concrete data\<close>

text \<open>
  \<open>bounds_keep_pace pc W (plo, phi) steps\<close>: from each step to the next, the domain bound
  that the plane has to leave through does not overtake the plane, which moves by
  \<open>- dt * beta_boost * c\<close>.  When the moving window shifts both bounds by
  \<open>moving_window_v * dt\<close> and \<open>dt \<ge> 0\<close>, this holds.
\<close>

fun bounds_keep_pace :: "PhysConst \<Rightarrow> WarpX \<Rightarrow> real \<times> real \<Rightarrow> (real \<times> real \<times> real) list \<Rightarrow> bool" where
  "bounds_keep_pace pc W b [] = True"
| "bounds_keep_pace pc W b ((dt, plo', phi') # steps) =
     ((moving_window_v W + beta_boost W * c0 pc \<ge> 0 \<longrightarrow>
         fst b - dt * beta_boost W * c0 pc \<le> plo') \<and>
      (moving_window_v W + beta_boost W * c0 pc \<le> 0 \<longrightarrow>
         phi' \<le> snd b - dt * beta_boost W * c0 pc) \<and>
      bounds_keep_pace pc W (plo', phi') steps)"

text \<open>A container that is injecting on its single level, with the plane at \<open>z\<close>.\<close>

definition injecting_at :: "real \<Rightarrow> bool \<Rightarrow> RigidInjectedParticleContainer" where
  "injecting_at z rigid =
    \<lparr> zinject_plane = z, rigid_advance = rigid, vzbeam_ave_boosted = 3,
      zinject_plane_levels = [z], zinject_plane_lev = z, zinject_plane_lev_previous = z,
      done_injecting_lev = False, do_not_push = False,
      do_classical_radiation_reaction = False, do_field_ionization = False,
      charge = - 1, mass = 1 \<rparr>"

text \<open>A particle on the axis at \<open>z\<close> with longitudinal momentum \<open>uz\<close>.\<close>

definition drifting :: "real \<Rightarrow> real \<Rightarrow> particle" where
  "drifting z uz = \<lparr> p_x = 0, p_y = 0, p_z = z, p_ux = 0, p_uy = 0, p_uz = uz \<rparr>"

text \<open>Stand-ins for the absent collaborators in concrete runs.\<close>

definition ppc_returns :: "tile \<Rightarrow> unit \<Rightarrow> nat \<Rightarrow> nat \<Rightarrow> real \<Rightarrow> ScaleFields \<Rightarrow> tile \<Rightarrow> error + tile" where
  "ppc_returns pushed thru offset np_to_push dt scaleFields t = Inr pushed"

definition ppc_Evolve_idle :: "RigidInjectedParticleContainer \<Rightarrow> nat \<Rightarrow> real \<Rightarrow> unit \<Rightarrow> error + unit" where
  "ppc_Evolve_idle st lev dt d = Inr d"

definition kick :: "vec3 \<Rightarrow> vec3 \<Rightarrow> vec3 \<Rightarrow> real \<Rightarrow> real \<Rightarrow> real \<Rightarrow> vec3" where
  "kick u E B q m dt = (case u of (a, b, c) \<Rightarrow> (a + 1, b + 1, c + 1))"

definition kicking_kernels :: "unit push_kernels" where
  "kicking_kernels =
    \<lparr> doGatherShapeN = (\<lambda>f pos. ((0, 0, 0), (0, 0, 0))),
      getExternalE = (\<lambda>f ip E. E), getExternalB = (\<lambda>f ip B. B),
      UpdateMomentumBoris = kick, UpdateMomentumVay = kick,
      UpdateMomentumHigueraCary = kick, UpdateMomentumBorisWithRadiationReaction = kick \<rparr>"

definition boosted :: "ParticlePusherAlgo \<Rightarrow> WarpX" where
  "boosted algo = \<lparr> gamma_boost = 5 / 4, beta_boost = 3 / 5, moving_window_v = 0,
                    particle_pusher_algo = algo \<rparr>"

text \<open>A frame boosted backwards whose moving window travels at the speed of light.\<close>

definition boosted_back :: WarpX where
  "boosted_back = \<lparr> gamma_boost = 5 / 4, beta_boost = - (3 / 5), moving_window_v = 299792458,
                     particle_pusher_algo = Boris \<rparr>"

text \<open>
  A stand-in for \<^verbatim>\<open>getCellCoordinates\<close> in concrete evaluations, which places a
  cell-centred component half a cell above the node, and a parser-defined medium on a
  unit grid.
\<close>

definition cell_coordinates :: "int \<Rightarrow> int \<Rightarrow> int \<Rightarrow> int \<times> int \<times> int \<Rightarrow> vec3 \<Rightarrow> vec3 \<Rightarrow> vec3" where
  "cell_coordinates i j k stag lo dx =
    (case stag of (sx, sy, sz) \<Rightarrow> case lo of (lx, ly, lz) \<Rightarrow> case dx of (dx0, dx1, dx2) \<Rightarrow>
       (lx + of_int i * dx0 + (1 - of_int sx) * dx0 * 0.5,
        ly + of_int j * dx1 + (1 - of_int sy) * dx1 * 0.5,
        lz + of_int k * dx2 + (1 - of_int sz) * dx2 * 0.5))"

definition unit_grid_accessor :: FieldAccessorMacroscopic where
  "unit_grid_accessor =
    \<lparr> m_field = [(0, 0, 0, 0) \<mapsto> 6],
      m_getParameter = \<lparr> m_type = ParserFunction, m_value = 0, m_parser = (\<lambda>x y z. x + y + z) \<rparr>,
      m_field_stag = (0, 0, 0), m_domain_lo = (0, 0, 0), m_dx = (1, 1, 1) \<rparr>"

section \<open>Loops\<close>

lemma upd_prefix:
  assumes "k < length s0"
  shows "(map g [0..<k] @ drop k s0)[k := g k] = map g [0..<Suc k] @ drop (Suc k) s0"
proof (rule nth_equalityI)
  show "length ((map g [0..<k] @ drop k s0)[k := g k]) = length (map g [0..<Suc k] @ drop (Suc k) s0)"
    using assms by simp
next
  fix i
  assume "i < length ((map g [0..<k] @ drop k s0)[k := g k])"
  then have i: "i < length s0" using assms by simp
  consider "i < k" | "i = k" | "k < i" by linarith
  then show "(map g [0..<k] @ drop k s0)[k := g k] ! i = (map g [0..<Suc k] @ drop (Suc k) s0) ! i"
  proof cases
    case 1
    then show ?thesis using assms by (simp add: nth_append)
  next
    case 2
    then show ?thesis using assms by (simp add: nth_append)
  next
    case 3
    then show ?thesis using assms i by (simp add: nth_append)
  qed
qed

lemma ParallelFor_prefix:
  assumes len: "length s0 = n"
    and step: "\<And>i s. i < n \<Longrightarrow> length s = n \<Longrightarrow> s ! i = s0 ! i \<Longrightarrow> body i s = Inr (s[i := g i])"
  shows "k \<le> n \<Longrightarrow> ParallelFor k body s0 = Inr (map g [0..<k] @ drop k s0)"
proof (induction k)
  case 0
  then show ?case by simp
next
  case (Suc k)
  let ?s = "map g [0..<k] @ drop k s0"
  have pf: "ParallelFor k body s0 = Inr ?s" using Suc by simp
  have k: "k < n" using Suc.prems by simp
  have l: "length ?s = n" using len k by simp
  have nth: "?s ! k = s0 ! k" using len k by (simp add: nth_append)
  have upd: "?s[k := g k] = map g [0..<Suc k] @ drop (Suc k) s0"
    using len k by (intro upd_prefix) simp
  show ?case using pf step[OF k l nth] upd by simp
qed

lemma ParallelFor_map:
  assumes "length s0 = n"
    and "\<And>i s. i < n \<Longrightarrow> length s = n \<Longrightarrow> s ! i = s0 ! i \<Longrightarrow> body i s = Inr (s[i := g i])"
  shows "ParallelFor n body s0 = Inr (map g [0..<n])"
proof -
  have "ParallelFor n body s0 = Inr (map g [0..<n] @ drop n s0)"
    by (rule ParallelFor_prefix[OF assms]) simp_all
  then show ?thesis using assms(1) by simp
qed

lemma ParallelFor_invariant:
  assumes init: "I 0 s0"
    and step: "\<And>i s s'. i < n \<Longrightarrow> I i s \<Longrightarrow> body i s = Inr s' \<Longrightarrow> I (Suc i) s'"
  shows "k \<le> n \<Longrightarrow> ParallelFor k body s0 = Inr s' \<Longrightarrow> I k s'"
proof (induction k arbitrary: s')
  case 0
  then show ?case using init by simp
next
  case (Suc k)
  from Suc.prems(2) obtain s1 where s1: "ParallelFor k body s0 = Inr s1" and b: "body k s1 = Inr s'"
    by (cases "ParallelFor k body s0") simp_all
  have kn: "k < n" using Suc.prems(1) by simp
  have inv: "I k s1" by (rule Suc.IH) (use kn s1 in simp_all)
  show ?case by (rule step[OF kn inv b])
qed

lemma ParallelFor_total:
  assumes init: "I 0 s0"
    and ret: "\<And>i s. i < n \<Longrightarrow> I i s \<Longrightarrow> \<exists>s'. body i s = Inr s'"
    and step: "\<And>i s s'. i < n \<Longrightarrow> I i s \<Longrightarrow> body i s = Inr s' \<Longrightarrow> I (Suc i) s'"
  shows "k \<le> n \<Longrightarrow> \<exists>s'. ParallelFor k body s0 = Inr s'"
proof (induction k)
  case 0
  then show ?case by simp
next
  case (Suc k)
  have kn: "k < n" "k \<le> n" using Suc.prems by simp_all
  obtain s1 where s1: "ParallelFor k body s0 = Inr s1" using Suc.IH[OF kn(2)] by blast
  have "I k s1" by (rule ParallelFor_invariant[where I = I and body = body and n = n, OF init step kn(2) s1])
  from ret[OF kn(1) this] obtain s' where "body k s1 = Inr s'" by blast
  then show ?case using s1 by simp
qed

lemma ParallelFor_fails:
  assumes "\<And>i s. i < n \<Longrightarrow> body i s = Inl e"
  shows "k \<le> n \<Longrightarrow> 0 < k \<Longrightarrow> ParallelFor k body s0 = Inl e"
proof (induction k)
  case 0
  then show ?case by simp
next
  case (Suc k)
  show ?case
  proof (cases "k = 0")
    case True
    then show ?thesis using assms[of 0 s0] Suc.prems by simp
  next
    case False
    then have "ParallelFor k body s0 = Inl e" using Suc by simp
    then show ?thesis by simp
  qed
qed


section \<open>Physical species\<close>

text \<open>
  C10.  \<^verbatim>\<open>from_string\<close> maps the alias \<open>proton\<close> to the species of \<open>hydrogen\<close> and the alias
  \<open>alpha\<close> to the species of \<open>helium\<close>; \<^verbatim>\<open>get_name(from_string(s))\<close> is \<open>s\<close> for each of the
  eleven canonical names, \<open>hydrogen\<close> for \<open>proton\<close> and \<open>helium\<close> for \<open>alpha\<close>; every
  accepted name yields a species and every other string aborts.
\<close>

theorem from_string_aliases:
  "from_string ''proton'' = from_string ''hydrogen'' \<and> from_string ''proton'' = Inr hydrogen \<and>
   from_string ''alpha'' = from_string ''helium'' \<and> from_string ''alpha'' = Inr helium \<and>
   (\<forall>s \<in> set canonical_names. name_of_string s = Inr s) \<and>
   name_of_string ''proton'' = Inr ''hydrogen'' \<and> name_of_string ''alpha'' = Inr ''helium'' \<and>
   (\<forall>s \<in> set accepted_names. \<exists>ps. from_string s = Inr ps) \<and>
   (\<forall>s. s \<notin> set accepted_names \<longrightarrow> from_string s = Inl (Abort ''unknown PhysicalSpecies''))"
proof -
  have al: "from_string ''proton'' = Inr hydrogen" "from_string ''hydrogen'' = Inr hydrogen"
    "from_string ''alpha'' = Inr helium" "from_string ''helium'' = Inr helium"
    by (simp_all add: from_string_def)
  have canon: "\<forall>s \<in> set canonical_names. name_of_string s = Inr s"
    by (simp add: canonical_names_def name_of_string_def from_string_def)
  have names: "name_of_string ''proton'' = Inr ''hydrogen''" "name_of_string ''alpha'' = Inr ''helium''"
    by (simp_all add: name_of_string_def al)
  have acc: "\<forall>s \<in> set accepted_names. \<exists>ps. from_string s = Inr ps"
    by (simp add: accepted_names_def canonical_names_def from_string_def)
  have rej: "\<forall>s. s \<notin> set accepted_names \<longrightarrow> from_string s = Inl (Abort ''unknown PhysicalSpecies'')"
    by (simp add: accepted_names_def canonical_names_def from_string_def)
  show ?thesis using al canon names acc rej by simp
qed

theorem from_string_aliases_witness:
  "name_of_string ''boron'' = Inr ''boron'' \<and>
   from_string ''muon'' = Inl (Abort ''unknown PhysicalSpecies'')"
proof -
  have c: "''boron'' \<in> set canonical_names" by (simp add: canonical_names_def)
  have a: "''muon'' \<notin> set accepted_names" by (simp add: accepted_names_def canonical_names_def)
  from from_string_aliases have
    "\<forall>s \<in> set canonical_names. name_of_string s = Inr s"
    "\<forall>s. s \<notin> set accepted_names \<longrightarrow> from_string s = Inl (Abort ''unknown PhysicalSpecies'')"
    by blast+
  then show ?thesis using c a by blast
qed

section \<open>Macroscopic field accessor\<close>

text \<open>
  C8.  For every index \<open>(i, j, k, ncomp)\<close> inside the field array, the call operator of
  \<^verbatim>\<open>FieldAccessorMacroscopic\<close> returns the stored value divided by the macroparameter at the
  coordinate \<open>(x, y, z)\<close> that \<^verbatim>\<open>getCellCoordinates\<close> computes from the indices, the
  staggering, the lower corner and the cell size; the macroparameter is \<open>m_value\<close> for
  \<open>ConstantValue\<close> and \<open>m_parser x y z\<close> for \<open>ParserFunction\<close>, and the functor never aborts.
  Both functions are functions of their arguments alone: they have no state to change.
\<close>

theorem FieldAccessorMacroscopic_quotient:
  assumes "m_field fa (i, j, k, ncomp) = Some v"
    and "getCellCoordinates i j k (m_field_stag fa) (m_domain_lo fa) (m_dx fa) = (x, y, z)"
  shows "\<exists>p. GetMacroparameter_call (m_getParameter fa) x y z = Inr p \<and>
             p = (case m_type (m_getParameter fa) of
                    ConstantValue \<Rightarrow> m_value (m_getParameter fa)
                  | ParserFunction \<Rightarrow> m_parser (m_getParameter fa) x y z) \<and>
             FieldAccessorMacroscopic_call getCellCoordinates fa i j k ncomp =
               Inr (if p = 0 then Inf_or_NaN else Quot (v / p))"
  using assms
  by (cases "m_type (m_getParameter fa)")
     (simp_all add: FieldAccessorMacroscopic_call_def GetMacroparameter_call_def fp_divide_def)


theorem FieldAccessorMacroscopic_quotient_witness:
  "FieldAccessorMacroscopic_call cell_coordinates unit_grid_accessor 0 0 0 0 = Inr (Quot 4)"
proof -
  have f: "m_field unit_grid_accessor (0, 0, 0, 0) = Some 6"
    by (simp add: unit_grid_accessor_def)
  have c: "cell_coordinates 0 0 0 (m_field_stag unit_grid_accessor)
             (m_domain_lo unit_grid_accessor) (m_dx unit_grid_accessor) = (1 / 2, 1 / 2, 1 / 2)"
    by (simp add: unit_grid_accessor_def cell_coordinates_def)
  from FieldAccessorMacroscopic_quotient[where getCellCoordinates = cell_coordinates, OF f c] obtain p where
    p: "p = (case m_type (m_getParameter unit_grid_accessor) of
               ConstantValue \<Rightarrow> m_value (m_getParameter unit_grid_accessor)
             | ParserFunction \<Rightarrow> m_parser (m_getParameter unit_grid_accessor) (1 / 2) (1 / 2) (1 / 2))"
    and r: "FieldAccessorMacroscopic_call cell_coordinates unit_grid_accessor 0 0 0 0 =
              Inr (if p = 0 then Inf_or_NaN else Quot (6 / p))"
    by blast
  have pv: "p = 3 / 2" using p by (simp add: unit_grid_accessor_def)
  have "p \<noteq> 0" "6 / p = 4" unfolding pv by simp_all
  then show ?thesis using r by simp
qed

section \<open>Proton-boron fusion cross section\<close>

lemma checked_div_Some: "b \<noteq> 0 \<Longrightarrow> checked_div a b = Some (a / b)"
  by (simp add: checked_div_def)

lemma square_plus_positive: "0 < d \<Longrightarrow> (a::real) * a + d \<noteq> 0"
  by (smt (verit) zero_le_square)

lemma astrophysical_factor_Some: "\<exists>v. astrophysical_factor E_kev = Some v"
  by (simp add: astrophysical_factor_def checked_div_Some square_plus_positive)

lemma gamow_factor_Some:
  assumes "q_e pc \<noteq> 0" "m_p pc \<noteq> 0" "ep0 pc \<noteq> 0" "hbar pc \<noteq> 0"
  shows "\<exists>v. gamow_factor pc j = Some v"
  using assms by (simp add: gamow_factor_def checked_div_Some)

text \<open>Without the guard the run would divide by \<open>E_mev = 0\<close>.\<close>

lemma division_by_zero_energy: "checked_div s (0 * joule_to_mev) = None"
  by (simp add: checked_div_def)

text \<open>
  C7.  For the input \<open>0\<close> the function returns \<open>0\<close> by its guarded early return, before any
  division (whatever the constants are); for every other input, with non-zero physical
  constants, every division that is executed has a non-zero divisor: the run is not \<open>None\<close>.
\<close>

theorem ProtonBoronFusionCrossSection_divisions:
  assumes "q_e pc \<noteq> 0" "m_p pc \<noteq> 0" "ep0 pc \<noteq> 0" "hbar pc \<noteq> 0"
  shows "ProtonBoronFusionCrossSection pc' 0 = Some (Val 0) \<and>
         (\<exists>v. ProtonBoronFusionCrossSection pc E_kin_star = Some v)"
proof (cases "E_kin_star = 0")
  case True
  then show ?thesis by (simp add: ProtonBoronFusionCrossSection_def)
next
  case False
  obtain g where g: "gamow_factor pc (0.000001 / q_e pc) = Some g"
    using gamow_factor_Some[OF assms] by blast
  obtain a where a: "astrophysical_factor (E_kin_star * (0.001 / q_e pc)) = Some a"
    using astrophysical_factor_Some by blast
  have nz: "E_kin_star * (0.000001 / q_e pc) \<noteq> 0" using False assms(1) by simp
  show ?thesis using False assms(1) g a nz
    by (simp add: ProtonBoronFusionCrossSection_def checked_div_Some)
qed

theorem ProtonBoronFusionCrossSection_divisions_witness:
  "ProtonBoronFusionCrossSection codata 0 = Some (Val 0) \<and>
   (\<exists>v. ProtonBoronFusionCrossSection codata (- 1) = Some v)"
proof -
  have "q_e codata \<noteq> 0" "m_p codata \<noteq> 0" "ep0 codata \<noteq> 0" "hbar codata \<noteq> 0"
    by (simp_all add: codata_def)
  then show ?thesis by (rule ProtonBoronFusionCrossSection_divisions)
qed


section \<open>PushPX: snapshot, generic push, restore\<close>

lemma list_update_same: "s ! i = v \<Longrightarrow> s[i := v] = s"
  by (metis list_update_id)

lemma save_kernel_0:
  assumes "i < length t" "length s = length t"
  shows "save_kernel 0 t i s = Inr (s[i := Some (t ! i)])"
proof -
  obtain a b c d e f where
    ti: "t ! i = \<lparr> p_x = a, p_y = b, p_z = c, p_ux = d, p_uy = e, p_uz = f \<rparr>"
    by (cases "t ! i") simp
  show ?thesis using assms by (simp add: save_kernel_def ti)
qed

lemma save_loop_0:
  "ParallelFor (length t) (save_kernel 0 t) (replicate (length t) None) =
     Inr (map (\<lambda>i. Some (t ! i)) [0..<length t])"
  by (rule ParallelFor_map) (simp_all add: save_kernel_0)

text \<open>With a non-zero \<open>offset\<close> the last kernel writes behind the end of the save vectors.\<close>

lemma save_loop_overrun:
  assumes "0 < offset" "t \<noteq> []"
  shows "ParallelFor (length t) (save_kernel offset t) (replicate (length t) None) =
     Inl OutOfBounds"
proof -
  obtain n where n: "length t = Suc n" using assms(2) by (cases t) simp_all
  have last: "save_kernel offset t n s = Inl OutOfBounds" for s
    using assms(1) n by (simp add: save_kernel_def)
  have err: "ParallelFor m (save_kernel offset t) s = Inl e \<Longrightarrow> e = OutOfBounds" for m s e
  proof (induction m arbitrary: e)
    case 0
    then show ?case by simp
  next
    case (Suc m)
    show ?case
    proof (cases "ParallelFor m (save_kernel offset t) s")
      case (Inl e')
      then show ?thesis using Suc by simp
    next
      case (Inr s')
      then have "save_kernel offset t m s' = Inl e" using Suc.prems by simp
      then show ?thesis by (simp add: save_kernel_def split: if_splits)
    qed
  qed
  show ?thesis
  proof (cases "ParallelFor n (save_kernel offset t) (replicate (length t) None)")
    case (Inl e)
    then show ?thesis using err[OF Inl] n by simp
  next
    case (Inr s')
    then show ?thesis using last n by simp
  qed
qed

text \<open>
  The position a particle that is held back is given when rigid advance is off: its saved
  position advanced by \<open>dt\<close> times its own saved velocity \<open>uz / \<gamma>\<close>.
\<close>

lemma restore_kernel_0:
  assumes "i < length s" "i < length saved" "saved ! i = Some v"
  shows "restore_kernel pc zpl vz rigid dt 0 saved i s =
     Inr (s[i := (if p_z (s ! i) \<le> zpl
                  then v \<lparr> p_z := (if rigid then p_z v + dt * vz
                                    else p_z v + dt * p_uz v *
                                      (1 / sqrt (1 + (p_ux v * p_ux v + p_uy v * p_uy v +
                                         p_uz v * p_uz v) * (1 / (c0 pc * c0 pc))))) \<rparr>
                  else s ! i)])"
proof (cases "p_z (s ! i) \<le> zpl")
  case False
  then show ?thesis by (simp add: restore_kernel_def list_update_same)
next
  case True
  have upd: "(s[i := q]) ! i = q" for q using assms(1) by simp
  have rec: "(s ! i) \<lparr> p_ux := p_ux v, p_uy := p_uy v, p_uz := p_uz v \<rparr>
               \<lparr> p_x := p_x v, p_y := p_y v, p_z := z \<rparr> = v \<lparr> p_z := z \<rparr>" for z
    by (cases v, cases "s ! i") simp
  have "restore_kernel pc zpl vz rigid dt 0 saved i s =
     Inr ((s[i := (s ! i) \<lparr> p_ux := p_ux v, p_uy := p_uy v, p_uz := p_uz v \<rparr>])
           [i := (s ! i) \<lparr> p_ux := p_ux v, p_uy := p_uy v, p_uz := p_uz v \<rparr>
               \<lparr> p_x := p_x v, p_y := p_y v,
                 p_z := (if rigid then p_z v + dt * vz
                         else p_z v + dt * p_uz v *
                           (1 / sqrt (1 + (p_ux v * p_ux v + p_uy v * p_uy v +
                              p_uz v * p_uz v) * (1 / (c0 pc * c0 pc))))) \<rparr>])"
    unfolding restore_kernel_def Let_def
    using True assms by (simp add: upd del: list_update_overwrite)
  also have "\<dots> = Inr (s[i := v \<lparr> p_z := (if rigid then p_z v + dt * vz
                         else p_z v + dt * p_uz v *
                           (1 / sqrt (1 + (p_ux v * p_ux v + p_uy v * p_uy v +
                              p_uz v * p_uz v) * (1 / (c0 pc * c0 pc))))) \<rparr>])"
    unfolding rec by simp
  finally show ?thesis using True by simp
qed

lemma restore_loop_0:
  assumes "length pushed = length t"
  shows "ParallelFor (length pushed)
           (restore_kernel pc zpl vz rigid dt 0 (map (\<lambda>i. Some (t ! i)) [0..<length t])) pushed =
     Inr (map (\<lambda>i. if p_z (pushed ! i) \<le> zpl
                    then (t ! i) \<lparr> p_z := (if rigid then p_z (t ! i) + dt * vz
                           else p_z (t ! i) + dt * p_uz (t ! i) *
                             (1 / sqrt (1 + (p_ux (t ! i) * p_ux (t ! i) + p_uy (t ! i) * p_uy (t ! i) +
                                p_uz (t ! i) * p_uz (t ! i)) * (1 / (c0 pc * c0 pc))))) \<rparr>
                    else pushed ! i) [0..<length pushed])"
proof (rule ParallelFor_map)
  show "length pushed = length pushed" by simp
next
  fix i s
  assume i: "i < length pushed" and l: "length s = length pushed" and e: "s ! i = pushed ! i"
  have sv: "map (\<lambda>i. Some (t ! i)) [0..<length t] ! i = Some (t ! i)"
    using i assms by simp
  show "restore_kernel pc zpl vz rigid dt 0 (map (\<lambda>i. Some (t ! i)) [0..<length t]) i s =
     Inr (s[i := if p_z (pushed ! i) \<le> zpl
                 then (t ! i) \<lparr> p_z := (if rigid then p_z (t ! i) + dt * vz
                           else p_z (t ! i) + dt * p_uz (t ! i) *
                             (1 / sqrt (1 + (p_ux (t ! i) * p_ux (t ! i) + p_uy (t ! i) * p_uy (t ! i) +
                                p_uz (t ! i) * p_uz (t ! i)) * (1 / (c0 pc * c0 pc))))) \<rparr>
                 else pushed ! i])"
    unfolding e[symmetric]
    by (rule restore_kernel_0[OF _ _ sv]) (use i l assms in simp_all)
qed

lemma PushPX_injecting_0:
  assumes "\<not> done_injecting_lev st"
    and "ppc_PushPX thru 0 np_to_push dt (PushPX_scaleFields pc W st dt) t = Inr pushed"
    and "length pushed = length t"
  shows "PushPX ppc_PushPX pc W st thru 0 np_to_push dt t =
     Inr (map (\<lambda>i. if p_z (pushed ! i) \<le> zinject_plane_lev st
                    then (t ! i) \<lparr> p_z := (if rigid_advance st
                           then p_z (t ! i) + dt * vzbeam_ave_boosted st
                           else p_z (t ! i) + dt * p_uz (t ! i) *
                             (1 / sqrt (1 + (p_ux (t ! i) * p_ux (t ! i) + p_uy (t ! i) * p_uy (t ! i) +
                                p_uz (t ! i) * p_uz (t ! i)) * (1 / (c0 pc * c0 pc))))) \<rparr>
                    else pushed ! i) [0..<length pushed])"
proof -
  have "PushPX_save st 0 t = Inr (map (\<lambda>i. Some (t ! i)) [0..<length t])"
    using assms(1) by (simp add: PushPX_save_def save_loop_0)
  then show ?thesis
    unfolding PushPX_def using assms(1,2) restore_loop_0[OF assms(3)] by simp
qed

text \<open>With a non-zero \<open>offset\<close> and a non-empty tile, an injecting level overruns its buffers.\<close>

lemma PushPX_injecting_offset:
  assumes "\<not> done_injecting_lev st" "0 < offset" "t \<noteq> []"
  shows "PushPX ppc_PushPX pc W st thru offset np_to_push dt t = Inl OutOfBounds"
  using assms by (simp add: PushPX_def PushPX_save_def save_loop_overrun)

text \<open>
  C1 (as amended).  While the level is injecting, for the whole tile (\<open>offset = 0\<close>) and
  every particle \<open>i\<close>: if its \<open>z\<close> after the generic push is at or below the injection plane,
  its momentum and its \<open>x\<close> and \<open>y\<close> are those of before the push, and its \<open>z\<close> is the
  \<open>z\<close> of before the push plus \<open>dt * vzbeam_ave_boosted\<close> under rigid advance, and plus
  \<open>dt * uz / sqrt (1 + |u|\<^sup>2 / c\<^sup>2)\<close> (its own saved velocity) otherwise; if its \<open>z\<close> after
  the push is strictly above the plane, it is exactly as the generic push left it.
\<close>

theorem PushPX_injecting:
  assumes "\<not> done_injecting_lev st"
    and "ppc_PushPX thru 0 np_to_push dt (PushPX_scaleFields pc W st dt) t = Inr pushed"
    and "length pushed = length t"
  shows "\<exists>t'. PushPX ppc_PushPX pc W st thru 0 np_to_push dt t = Inr t' \<and>
      length t' = length t \<and>
      (\<forall>i < length t.
         (p_z (pushed ! i) \<le> zinject_plane_lev st \<longrightarrow>
            p_ux (t' ! i) = p_ux (t ! i) \<and> p_uy (t' ! i) = p_uy (t ! i) \<and>
            p_uz (t' ! i) = p_uz (t ! i) \<and>
            p_x (t' ! i) = p_x (t ! i) \<and> p_y (t' ! i) = p_y (t ! i) \<and>
            p_z (t' ! i) =
              (if rigid_advance st then p_z (t ! i) + dt * vzbeam_ave_boosted st
               else p_z (t ! i) + dt * p_uz (t ! i) *
                  (1 / sqrt (1 + (p_ux (t ! i) * p_ux (t ! i) + p_uy (t ! i) * p_uy (t ! i) +
                     p_uz (t ! i) * p_uz (t ! i)) * (1 / (c0 pc * c0 pc)))))) \<and>
         (zinject_plane_lev st < p_z (pushed ! i) \<longrightarrow> t' ! i = pushed ! i))"
  unfolding PushPX_injecting_0[where ppc_PushPX = ppc_PushPX, OF assms] using assms(3) by simp


theorem PushPX_injecting_witness:
  "\<exists>t'. PushPX (ppc_returns [drifting 1 2, drifting 21 2]) codata (boosted Boris)
            (injecting_at 10 True) () 0 2 2 [drifting 0 1, drifting 20 1] = Inr t' \<and>
        length t' = 2 \<and> p_uz (t' ! 0) = 1 \<and> p_z (t' ! 0) = 6 \<and> t' ! 1 = drifting 21 2"
proof -
  have h1: "\<not> done_injecting_lev (injecting_at 10 True)"
    by (simp add: injecting_at_def)
  have h2: "ppc_returns [drifting 1 2, drifting 21 2] () 0 2 2
              (PushPX_scaleFields codata (boosted Boris) (injecting_at 10 True) 2)
              [drifting 0 1, drifting 20 1] = Inr [drifting 1 2, drifting 21 2]"
    by (simp add: ppc_returns_def)
  have h3: "length [drifting 1 2, drifting 21 2] = length [drifting 0 1, drifting 20 1]"
    by simp
  from PushPX_injecting[where ppc_PushPX = "ppc_returns [drifting 1 2, drifting 21 2]", OF h1 h2 h3]
  obtain t' where r: "PushPX (ppc_returns [drifting 1 2, drifting 21 2]) codata (boosted Boris)
            (injecting_at 10 True) () 0 2 2 [drifting 0 1, drifting 20 1] = Inr t'"
    and l: "length t' = length [drifting 0 1, drifting 20 1]"
    and a: "\<forall>i < length [drifting 0 1, drifting 20 1].
         (p_z ([drifting 1 2, drifting 21 2] ! i) \<le> zinject_plane_lev (injecting_at 10 True) \<longrightarrow>
            p_ux (t' ! i) = p_ux ([drifting 0 1, drifting 20 1] ! i) \<and>
            p_uy (t' ! i) = p_uy ([drifting 0 1, drifting 20 1] ! i) \<and>
            p_uz (t' ! i) = p_uz ([drifting 0 1, drifting 20 1] ! i) \<and>
            p_x (t' ! i) = p_x ([drifting 0 1, drifting 20 1] ! i) \<and>
            p_y (t' ! i) = p_y ([drifting 0 1, drifting 20 1] ! i) \<and>
            p_z (t' ! i) =
              (if rigid_advance (injecting_at 10 True)
               then p_z ([drifting 0 1, drifting 20 1] ! i) + 2 * vzbeam_ave_boosted (injecting_at 10 True)
               else p_z ([drifting 0 1, drifting 20 1] ! i) + 2 * p_uz ([drifting 0 1, drifting 20 1] ! i) *
                  (1 / sqrt (1 + (p_ux ([drifting 0 1, drifting 20 1] ! i) * p_ux ([drifting 0 1, drifting 20 1] ! i) +
                     p_uy ([drifting 0 1, drifting 20 1] ! i) * p_uy ([drifting 0 1, drifting 20 1] ! i) +
                     p_uz ([drifting 0 1, drifting 20 1] ! i) * p_uz ([drifting 0 1, drifting 20 1] ! i)) *
                     (1 / (c0 codata * c0 codata)))))) \<and>
         (zinject_plane_lev (injecting_at 10 True) < p_z ([drifting 1 2, drifting 21 2] ! i) \<longrightarrow>
            t' ! i = [drifting 1 2, drifting 21 2] ! i)"
    by blast
  have a0: "p_uz (t' ! 0) = 1 \<and> p_z (t' ! 0) = 6"
    using a[rule_format, of 0] by (simp add: injecting_at_def drifting_def)
  have a1: "t' ! 1 = drifting 21 2"
    using a[rule_format, of 1] by (simp add: injecting_at_def drifting_def)
  show ?thesis using r l a0 a1 by simp
qed

text \<open>
  The claim as first stated has the held-back particle return to its \<open>z\<close> of before the
  push when rigid advance is off.  Here the level is injecting without rigid advance, the
  particle starts at \<open>z = 0\<close> with \<open>uz = 1\<close>, the generic push leaves it at \<open>z = 1\<close>, below the
  plane at \<open>z = 10\<close>, and \<open>dt = 1\<close>: it ends at \<open>z = 1 / sqrt (1 + 1 / c\<^sup>2)\<close>, not at \<open>0\<close>.
\<close>

theorem PushPX_injecting_counterexample:
  "PushPX (ppc_returns [drifting 1 2]) codata (boosted Boris) (injecting_at 10 False) () 0 1 1
     [drifting 0 1] = Inr [drifting (1 / sqrt (1 + 1 / (299792458 * 299792458))) 1] \<and>
   1 / sqrt (1 + 1 / (299792458 * 299792458)) \<noteq> (0::real)"
proof -
  have h1: "\<not> done_injecting_lev (injecting_at 10 False)"
    by (simp add: injecting_at_def)
  have h2: "ppc_returns [drifting 1 2] () 0 1 1
              (PushPX_scaleFields codata (boosted Boris) (injecting_at 10 False) 1)
              [drifting 0 1] = Inr [drifting 1 2]"
    by (simp add: ppc_returns_def)
  have h3: "length [drifting 1 2] = length [drifting 0 1]"
    by simp
  have pos: "(0::real) < 1 + 1 / (299792458 * 299792458)" by simp
  have nz: "1 / sqrt (1 + 1 / (299792458 * 299792458)) \<noteq> (0::real)"
    using pos by simp
  have "PushPX (ppc_returns [drifting 1 2]) codata (boosted Boris) (injecting_at 10 False) () 0 1 1
     [drifting 0 1] = Inr [drifting (1 / sqrt (1 + 1 / (299792458 * 299792458))) 1]"
    unfolding PushPX_injecting_0[where ppc_PushPX = "ppc_returns [drifting 1 2]", OF h1 h2 h3]
    by (simp add: injecting_at_def drifting_def codata_def)
  then show ?thesis using nz by simp
qed

text \<open>
  C4.  When the flag of the level is set, \<^verbatim>\<open>PushPX\<close> fills no save vector (they keep their
  size \<open>0\<close>), passes \<open>do_scale = false\<close> to the generic push and undoes nothing: its outcome
  is the outcome of the generic push, for every offset, tile and timestep.
\<close>

theorem PushPX_done:
  assumes "done_injecting_lev st"
  shows "PushPX_save st offset t = Inr [] \<and>
         \<not> m_do_scale (PushPX_scaleFields pc W st dt) \<and>
         PushPX ppc_PushPX pc W st thru offset np_to_push dt t =
           ppc_PushPX thru offset np_to_push dt (PushPX_scaleFields pc W st dt) t"
  using assms
  by (simp add: PushPX_def PushPX_save_def PushPX_scaleFields_def split: sum.splits)

theorem PushPX_done_witness:
  "PushPX (ppc_returns [drifting 1 2]) codata (boosted Boris)
     ((injecting_at 10 False) \<lparr> done_injecting_lev := True \<rparr>) () 0 1 1 [drifting 0 1] =
   Inr [drifting 1 2]"
proof -
  have h: "done_injecting_lev ((injecting_at 10 False) \<lparr> done_injecting_lev := True \<rparr>)"
    by simp
  from PushPX_done[where ppc_PushPX = "ppc_returns [drifting 1 2]", OF h]
  have "PushPX (ppc_returns [drifting 1 2]) codata (boosted Boris)
     ((injecting_at 10 False) \<lparr> done_injecting_lev := True \<rparr>) () 0 1 1 [drifting 0 1] =
     ppc_returns [drifting 1 2] () 0 1 1
       (PushPX_scaleFields codata (boosted Boris)
          ((injecting_at 10 False) \<lparr> done_injecting_lev := True \<rparr>) 1) [drifting 0 1]"
    by blast
  then show ?thesis by (simp add: ppc_returns_def)
qed


text \<open>
  With \<open>dt = 0\<close> the correction of \<open>z\<close> vanishes: a particle that is held back is exactly
  as it was before the push, with or without rigid advance.
\<close>

lemma PushPX_held_back_zero_dt:
  assumes "\<not> done_injecting_lev st"
    and "ppc_PushPX thru 0 np_to_push 0 (PushPX_scaleFields pc W st 0) t = Inr pushed"
    and "length pushed = length t"
    and "i < length t" and "p_z (pushed ! i) \<le> zinject_plane_lev st"
  shows "\<exists>t'. PushPX ppc_PushPX pc W st thru 0 np_to_push 0 t = Inr t' \<and> t' ! i = t ! i"
  unfolding PushPX_injecting_0[where ppc_PushPX = ppc_PushPX, OF assms(1,2,3)]
  using assms(3,4,5) by simp

section \<open>Evolve: the injection plane and the flag\<close>

lemma Evolve_plane_Inr:
  assumes "lev < length (zinject_plane_levels st)"
  shows "Evolve_plane pc W plo phi lev dt st =
     Inr (st \<lparr> zinject_plane_lev_previous := zinject_plane_levels st ! lev,
               zinject_plane_levels := (zinject_plane_levels st)
                  [lev := zinject_plane_levels st ! lev - dt * beta_boost W * c0 pc],
               zinject_plane_lev := zinject_plane_levels st ! lev - dt * beta_boost W * c0 pc,
               done_injecting_lev :=
                 ((zinject_plane_levels st ! lev - dt * beta_boost W * c0 pc < plo \<and>
                     moving_window_v W + beta_boost W * c0 pc \<ge> 0) \<or>
                  (zinject_plane_levels st ! lev - dt * beta_boost W * c0 pc > phi \<and>
                     moving_window_v W + beta_boost W * c0 pc \<le> 0)) \<rparr>)"
  using assms by (simp add: Evolve_plane_def Let_def)

lemma Evolve_plane_and_flag_aux:
  assumes "lev < length (zinject_plane_levels st)"
  shows "\<exists>st'. zinject_plane_levels st' ! lev =
       zinject_plane_levels st ! lev - dt * beta_boost W * c0 pc \<and>
     length (zinject_plane_levels st') = length (zinject_plane_levels st) \<and>
     (done_injecting_lev st' \<longleftrightarrow>
        (zinject_plane_levels st' ! lev < plo \<and> moving_window_v W + beta_boost W * c0 pc \<ge> 0) \<or>
        (zinject_plane_levels st' ! lev > phi \<and> moving_window_v W + beta_boost W * c0 pc \<le> 0)) \<and>
     Evolve ppc_Evolve pc W plo phi lev dt (st, d) =
       (case ppc_Evolve st' lev dt d of Inl e \<Rightarrow> Inl e | Inr d' \<Rightarrow> Inr (st', d'))"
proof -
  let ?z = "zinject_plane_levels st ! lev - dt * beta_boost W * c0 pc"
  let ?st' = "st \<lparr> zinject_plane_lev_previous := zinject_plane_levels st ! lev,
               zinject_plane_levels := (zinject_plane_levels st)[lev := ?z],
               zinject_plane_lev := ?z,
               done_injecting_lev :=
                 ((?z < plo \<and> moving_window_v W + beta_boost W * c0 pc \<ge> 0) \<or>
                  (?z > phi \<and> moving_window_v W + beta_boost W * c0 pc \<le> 0)) \<rparr>"
  have r: "Evolve_plane pc W plo phi lev dt st = Inr ?st'"
    by (rule Evolve_plane_Inr[OF assms])
  have z: "zinject_plane_levels ?st' ! lev = ?z" using assms by simp
  have l: "length (zinject_plane_levels ?st') = length (zinject_plane_levels st)" by simp
  have e: "Evolve ppc_Evolve pc W plo phi lev dt (st, d) =
       (case ppc_Evolve ?st' lev dt d of Inl e \<Rightarrow> Inl e | Inr d' \<Rightarrow> Inr (?st', d'))"
    by (simp add: Evolve_def r)
  have f: "done_injecting_lev ?st' \<longleftrightarrow>
        (?z < plo \<and> moving_window_v W + beta_boost W * c0 pc \<ge> 0) \<or>
        (?z > phi \<and> moving_window_v W + beta_boost W * c0 pc \<le> 0)"
    by simp
  have f': "done_injecting_lev ?st' \<longleftrightarrow>
        (zinject_plane_levels ?st' ! lev < plo \<and> moving_window_v W + beta_boost W * c0 pc \<ge> 0) \<or>
        (zinject_plane_levels ?st' ! lev > phi \<and> moving_window_v W + beta_boost W * c0 pc \<le> 0)"
    unfolding z by (rule f)
  show ?thesis
    by (rule exI[of _ ?st']) (intro conjI z l f' e)
qed

text \<open>
  C2.  A call of \<^verbatim>\<open>Evolve\<close> for a level first saves the plane position of the level and
  moves it by \<open>- dt * beta_boost * c\<close>; the flag is then true exactly when the new position
  is below the lower \<open>z\<close> bound with \<open>moving_window_v + beta_boost * c \<ge> 0\<close> or above the
  upper \<open>z\<close> bound with \<open>moving_window_v + beta_boost * c \<le> 0\<close>, so that it is false as long
  as the plane is within the bounds; the generic \<^verbatim>\<open>Evolve\<close> runs on the state so updated.
\<close>

theorem Evolve_plane_and_flag:
  assumes "lev < length (zinject_plane_levels st)"
  shows "\<exists>st'. Evolve_plane pc W plo phi lev dt st = Inr st' \<and>
     zinject_plane_lev_previous st' = zinject_plane_levels st ! lev \<and>
     zinject_plane_levels st' ! lev =
       zinject_plane_levels st ! lev - dt * beta_boost W * c0 pc \<and>
     zinject_plane_lev st' = zinject_plane_levels st' ! lev \<and>
     (done_injecting_lev st' \<longleftrightarrow>
        (zinject_plane_levels st' ! lev < plo \<and> moving_window_v W + beta_boost W * c0 pc \<ge> 0) \<or>
        (zinject_plane_levels st' ! lev > phi \<and> moving_window_v W + beta_boost W * c0 pc \<le> 0)) \<and>
     (plo \<le> zinject_plane_levels st' ! lev \<and> zinject_plane_levels st' ! lev \<le> phi \<longrightarrow>
        \<not> done_injecting_lev st') \<and>
     Evolve ppc_Evolve pc W plo phi lev dt (st, d) =
       (case ppc_Evolve st' lev dt d of Inl e \<Rightarrow> Inl e | Inr d' \<Rightarrow> Inr (st', d'))"
proof -
  let ?z = "zinject_plane_levels st ! lev - dt * beta_boost W * c0 pc"
  let ?st' = "st \<lparr> zinject_plane_lev_previous := zinject_plane_levels st ! lev,
               zinject_plane_levels := (zinject_plane_levels st)[lev := ?z],
               zinject_plane_lev := ?z,
               done_injecting_lev :=
                 ((?z < plo \<and> moving_window_v W + beta_boost W * c0 pc \<ge> 0) \<or>
                  (?z > phi \<and> moving_window_v W + beta_boost W * c0 pc \<le> 0)) \<rparr>"
  have r: "Evolve_plane pc W plo phi lev dt st = Inr ?st'"
    by (rule Evolve_plane_Inr[OF assms])
  have z: "zinject_plane_levels ?st' ! lev = ?z" using assms by simp
  have e: "Evolve ppc_Evolve pc W plo phi lev dt (st, d) =
       (case ppc_Evolve ?st' lev dt d of Inl e \<Rightarrow> Inl e | Inr d' \<Rightarrow> Inr (?st', d'))"
    by (simp add: Evolve_def r)
  have f: "done_injecting_lev ?st' \<longleftrightarrow>
        (?z < plo \<and> moving_window_v W + beta_boost W * c0 pc \<ge> 0) \<or>
        (?z > phi \<and> moving_window_v W + beta_boost W * c0 pc \<le> 0)"
    by simp
  have f': "done_injecting_lev ?st' \<longleftrightarrow>
        (zinject_plane_levels ?st' ! lev < plo \<and> moving_window_v W + beta_boost W * c0 pc \<ge> 0) \<or>
        (zinject_plane_levels ?st' ! lev > phi \<and> moving_window_v W + beta_boost W * c0 pc \<le> 0)"
    unfolding z by (rule f)
  have g: "plo \<le> zinject_plane_levels ?st' ! lev \<and> zinject_plane_levels ?st' ! lev \<le> phi \<longrightarrow>
        \<not> done_injecting_lev ?st'"
    unfolding f' by linarith
  have p: "zinject_plane_lev_previous ?st' = zinject_plane_levels st ! lev"
    by simp
  have q: "zinject_plane_lev ?st' = zinject_plane_levels ?st' ! lev"
    unfolding z by simp
  show ?thesis
    by (rule exI[of _ ?st']) (intro conjI r p z q f' g e)
qed

theorem Evolve_plane_and_flag_witness:
  "\<exists>st'. Evolve_plane codata (boosted Boris) 0 10 0 (5 / 299792458) (injecting_at 1 False) = Inr st' \<and>
     zinject_plane_lev_previous st' = 1 \<and> zinject_plane_levels st' ! 0 = - 2 \<and>
     done_injecting_lev st'"
proof -
  have h: "0 < length (zinject_plane_levels (injecting_at 1 False))"
    by (simp add: injecting_at_def)
  have b: "5 / 299792458 * beta_boost (boosted Boris) * c0 codata = 3"
    "moving_window_v (boosted Boris) + beta_boost (boosted Boris) * c0 codata \<ge> 0"
    "zinject_plane_levels (injecting_at 1 False) ! 0 = 1"
    by (simp_all add: boosted_def codata_def injecting_at_def)
  show ?thesis
    using Evolve_plane_and_flag[where pc = codata and W = "boosted Boris" and plo = 0 and phi = 10
      and dt = "5 / 299792458" and ppc_Evolve = ppc_Evolve_idle and d = "()", OF h]
    unfolding b
    apply (elim exE conjE)
    subgoal for st'
      apply (rule exI[of _ st'])
      apply (simp add: b(2))
      done
    done
qed

lemma Evolve_Inr:
  assumes "Evolve ppc_Evolve pc W plo phi lev dt sd = Inr sd'"
  shows "lev < length (zinject_plane_levels (fst sd)) \<and>
     length (zinject_plane_levels (fst sd')) = length (zinject_plane_levels (fst sd)) \<and>
     zinject_plane_levels (fst sd') ! lev =
       zinject_plane_levels (fst sd) ! lev - dt * beta_boost W * c0 pc \<and>
     (done_injecting_lev (fst sd') \<longleftrightarrow>
        (zinject_plane_levels (fst sd') ! lev < plo \<and> moving_window_v W + beta_boost W * c0 pc \<ge> 0) \<or>
        (zinject_plane_levels (fst sd') ! lev > phi \<and> moving_window_v W + beta_boost W * c0 pc \<le> 0))"
proof -
  obtain st d where sd: "sd = (st, d)" by (cases sd) auto
  have lev: "lev < length (zinject_plane_levels st)"
  proof (rule ccontr)
    assume "\<not> lev < length (zinject_plane_levels st)"
    then have "Evolve ppc_Evolve pc W plo phi lev dt sd = Inl OutOfBounds"
      by (simp add: Evolve_def Evolve_plane_def sd)
    then show False using assms by simp
  qed
  from Evolve_plane_and_flag_aux[where pc = pc and W = W and plo = plo and phi = phi and dt = dt
      and ppc_Evolve = ppc_Evolve and d = d, OF lev]
  obtain st' where st': "zinject_plane_levels st' ! lev =
       zinject_plane_levels st ! lev - dt * beta_boost W * c0 pc"
     "length (zinject_plane_levels st') = length (zinject_plane_levels st)"
     "done_injecting_lev st' \<longleftrightarrow>
        (zinject_plane_levels st' ! lev < plo \<and> moving_window_v W + beta_boost W * c0 pc \<ge> 0) \<or>
        (zinject_plane_levels st' ! lev > phi \<and> moving_window_v W + beta_boost W * c0 pc \<le> 0)"
     "Evolve ppc_Evolve pc W plo phi lev dt (st, d) =
       (case ppc_Evolve st' lev dt d of Inl e \<Rightarrow> Inl e | Inr d' \<Rightarrow> Inr (st', d'))"
    by blast
  have "fst sd' = st'"
  proof (cases "ppc_Evolve st' lev dt d")
    case (Inl e)
    then show ?thesis using assms st'(4) unfolding sd by simp
  next
    case (Inr d')
    then have "sd' = (st', d')" using assms st'(4) unfolding sd by simp
    then show ?thesis by simp
  qed
  then show ?thesis using st'(1,2,3) lev unfolding sd by simp
qed

lemma done_injecting_persists:
  assumes "bounds_keep_pace pc W (plo, phi) steps"
    and "(zinject_plane_levels (fst sd) ! lev < plo \<and> moving_window_v W + beta_boost W * c0 pc \<ge> 0) \<or>
         (zinject_plane_levels (fst sd) ! lev > phi \<and> moving_window_v W + beta_boost W * c0 pc \<le> 0)"
    and "done_injecting_lev (fst sd)"
    and "Evolve_steps ppc_Evolve pc W lev steps sd = Inr sd'"
  shows "done_injecting_lev (fst sd')"
  using assms
proof (induction steps arbitrary: plo phi sd)
  case Nil
  then show ?case by simp
next
  case (Cons step steps)
  obtain dt plo' phi' where step: "step = (dt, plo', phi')" by (cases step) auto
  from Cons.prems(4) obtain sd1 where
    e: "Evolve ppc_Evolve pc W plo' phi' lev dt sd = Inr sd1" and
    rest: "Evolve_steps ppc_Evolve pc W lev steps sd1 = Inr sd'"
    unfolding step by (cases "Evolve ppc_Evolve pc W plo' phi' lev dt sd") simp_all
  note E = Evolve_Inr[OF e]
  have pace: "moving_window_v W + beta_boost W * c0 pc \<ge> 0 \<longrightarrow> plo - dt * beta_boost W * c0 pc \<le> plo'"
    "moving_window_v W + beta_boost W * c0 pc \<le> 0 \<longrightarrow> phi' \<le> phi - dt * beta_boost W * c0 pc"
    "bounds_keep_pace pc W (plo', phi') steps"
    using Cons.prems(1) unfolding step by simp_all
  have z1: "zinject_plane_levels (fst sd1) ! lev =
       zinject_plane_levels (fst sd) ! lev - dt * beta_boost W * c0 pc"
    using E by blast
  have out: "(zinject_plane_levels (fst sd1) ! lev < plo' \<and> moving_window_v W + beta_boost W * c0 pc \<ge> 0) \<or>
         (zinject_plane_levels (fst sd1) ! lev > phi' \<and> moving_window_v W + beta_boost W * c0 pc \<le> 0)"
    using Cons.prems(2) pace(1,2) unfolding z1 by linarith
  then have "done_injecting_lev (fst sd1)" using E by blast
  then show ?case using Cons.IH[OF pace(3) out _ rest] by simp
qed

lemma bounds_keep_pace_take:
  "bounds_keep_pace pc W b steps \<Longrightarrow> bounds_keep_pace pc W b (take k steps)"
proof (induction steps arbitrary: b k)
  case Nil
  then show ?case by simp
next
  case (Cons step steps)
  obtain dt plo' phi' where step: "step = (dt, plo', phi')" by (cases step) auto
  show ?case using Cons unfolding step by (cases k) simp_all
qed

text \<open>
  C3 (as amended).  The flag is recomputed from the plane position at every step.  Once a
  step has set it, it is set after every later step of the level, provided that from each
  step to the next the relevant domain bound keeps pace with the plane: the lower bound
  does not fall below its former value minus \<open>dt * beta_boost * c\<close> when
  \<open>moving_window_v + beta_boost * c \<ge> 0\<close>, and the upper bound does not rise above its
  former value minus \<open>dt * beta_boost * c\<close> when \<open>moving_window_v + beta_boost * c \<le> 0\<close>.
\<close>

theorem done_injecting_remains:
  assumes "Evolve ppc_Evolve pc W plo phi lev dt sd = Inr sd1"
    and "done_injecting_lev (fst sd1)"
    and "bounds_keep_pace pc W (plo, phi) steps"
    and "Evolve_steps ppc_Evolve pc W lev (take k steps) sd1 = Inr sd2"
  shows "done_injecting_lev (fst sd2)"
proof -
  note E = Evolve_Inr[OF assms(1)]
  have out: "(zinject_plane_levels (fst sd1) ! lev < plo \<and> moving_window_v W + beta_boost W * c0 pc \<ge> 0) \<or>
         (zinject_plane_levels (fst sd1) ! lev > phi \<and> moving_window_v W + beta_boost W * c0 pc \<le> 0)"
    using E assms(2) by blast
  show ?thesis
    by (rule done_injecting_persists[OF bounds_keep_pace_take[OF assms(3)] out assms(2) assms(4)])
qed

text \<open>When the moving window carries both bounds along and \<open>dt \<ge> 0\<close>, the bounds keep pace.\<close>

lemma moving_window_keeps_pace:
  assumes "0 \<le> dt"
  shows "bounds_keep_pace pc W (plo, phi)
           [(dt, plo + moving_window_v W * dt, phi + moving_window_v W * dt)]"
proof -
  have d: "dt * (moving_window_v W + beta_boost W * c0 pc) =
             moving_window_v W * dt + dt * beta_boost W * c0 pc"
    by (simp add: algebra_simps)
  have a: "moving_window_v W * dt + dt * beta_boost W * c0 pc \<ge> 0"
    if "moving_window_v W + beta_boost W * c0 pc \<ge> 0"
    using mult_nonneg_nonneg[OF assms that] unfolding d .
  have b: "moving_window_v W * dt + dt * beta_boost W * c0 pc \<le> 0"
    if "moving_window_v W + beta_boost W * c0 pc \<le> 0"
    using mult_nonneg_nonpos[OF assms that] unfolding d .
  have "(moving_window_v W + beta_boost W * c0 pc \<ge> 0 \<longrightarrow>
           plo - dt * beta_boost W * c0 pc \<le> plo + moving_window_v W * dt) \<and>
        (moving_window_v W + beta_boost W * c0 pc \<le> 0 \<longrightarrow>
           phi + moving_window_v W * dt \<le> phi - dt * beta_boost W * c0 pc)"
    using a b by linarith
  then show ?thesis by simp
qed


text \<open>A run returns when the level exists and the generic \<^verbatim>\<open>Evolve\<close> does not abort.\<close>

lemma Evolve_returns:
  assumes "lev < length (zinject_plane_levels (fst sd))"
    and "\<And>st d. \<exists>d'. ppc_Evolve st lev dt d = Inr d'"
  shows "\<exists>sd'. Evolve ppc_Evolve pc W plo phi lev dt sd = Inr sd'"
proof -
  obtain st d where sd: "sd = (st, d)" by (cases sd) auto
  have lev: "lev < length (zinject_plane_levels st)" using assms(1) sd by simp
  obtain st' where st': "Evolve_plane pc W plo phi lev dt st = Inr st'"
    using Evolve_plane_Inr[OF lev] by blast
  obtain d' where d': "ppc_Evolve st' lev dt d = Inr d'" using assms(2) by blast
  show ?thesis by (simp add: Evolve_def sd st' d')
qed

lemma Evolve_steps_returns:
  assumes "\<And>st dt d. \<exists>d'. ppc_Evolve st lev dt d = Inr d'"
  shows "lev < length (zinject_plane_levels (fst sd)) \<Longrightarrow>
         \<exists>sd'. Evolve_steps ppc_Evolve pc W lev steps sd = Inr sd'"
proof (induction steps arbitrary: sd)
  case Nil
  then show ?case by simp
next
  case (Cons step steps)
  obtain dt plo phi where step: "step = (dt, plo, phi)" by (cases step) auto
  obtain sd1 where e: "Evolve ppc_Evolve pc W plo phi lev dt sd = Inr sd1"
    using Evolve_returns[where ppc_Evolve = ppc_Evolve and dt = dt, OF Cons.prems assms] by blast
  have "lev < length (zinject_plane_levels (fst sd1))"
    using Evolve_Inr[OF e] by simp
  from Cons.IH[OF this] obtain sd' where "Evolve_steps ppc_Evolve pc W lev steps sd1 = Inr sd'"
    by blast
  then show ?case by (simp add: step e)
qed

theorem done_injecting_remains_witness:
  "\<exists>sd1 sd2.
     Evolve ppc_Evolve_idle codata (boosted Boris) 0 10 0 (5 / 299792458)
       (injecting_at 1 False, ()) = Inr sd1 \<and>
     done_injecting_lev (fst sd1) \<and>
     Evolve_steps ppc_Evolve_idle codata (boosted Boris) 0
       [(5 / 299792458, 0, 10), (5 / 299792458, 0, 10)] sd1 = Inr sd2 \<and>
     done_injecting_lev (fst sd2)"
proof -
  have idle: "\<exists>d'. ppc_Evolve_idle st 0 dt d = Inr d'" for st dt d
    by (simp add: ppc_Evolve_idle_def)
  have b: "5 / 299792458 * beta_boost (boosted Boris) * c0 codata = 3"
    "moving_window_v (boosted Boris) + beta_boost (boosted Boris) * c0 codata \<ge> 0"
    "\<not> moving_window_v (boosted Boris) + beta_boost (boosted Boris) * c0 codata \<le> 0"
    "zinject_plane_levels (injecting_at 1 False) ! 0 = 1"
    by (simp_all add: boosted_def codata_def injecting_at_def)
  have l: "0 < length (zinject_plane_levels (fst (injecting_at 1 False, ())))"
    by (simp add: injecting_at_def)
  obtain sd1 where e1: "Evolve ppc_Evolve_idle codata (boosted Boris) 0 10 0 (5 / 299792458)
       (injecting_at 1 False, ()) = Inr sd1"
    using Evolve_returns[where ppc_Evolve = ppc_Evolve_idle, OF l idle] by blast
  note E = Evolve_Inr[OF e1]
  have z: "zinject_plane_levels (fst sd1) ! 0 = - 2" using E b(1,4) by simp
  have d1: "done_injecting_lev (fst sd1)" using E b(2) z by simp
  have pace: "bounds_keep_pace codata (boosted Boris) (0, 10)
                [(5 / 299792458, 0, 10), (5 / 299792458, 0, 10)]"
    using b(1,2,3) by simp
  have l1: "0 < length (zinject_plane_levels (fst sd1))" using E by simp
  obtain sd2 where e2: "Evolve_steps ppc_Evolve_idle codata (boosted Boris) 0
       (take 2 [(5 / 299792458, 0, 10), (5 / 299792458, 0, 10)]) sd1 = Inr sd2"
    using Evolve_steps_returns[where ppc_Evolve = ppc_Evolve_idle, OF idle l1] by blast
  have d2: "done_injecting_lev (fst sd2)"
    by (rule done_injecting_remains[OF e1 d1 pace e2])
  have e2': "Evolve_steps ppc_Evolve_idle codata (boosted Boris) 0
       [(5 / 299792458, 0, 10), (5 / 299792458, 0, 10)] sd1 = Inr sd2"
    using e2 by simp
  show ?thesis using e1 d1 e2' d2 by blast
qed

text \<open>
  The claim as first stated holds for all values of \<open>beta_boost\<close>, \<open>moving_window_v\<close>, \<open>dt\<close>
  and the bounds.  Here the frame is boosted backwards (\<open>beta_boost = - 3 / 5\<close>), the window
  velocity is \<open>c\<close> and the bounds stay at \<open>[0, 10]\<close>: the plane starts below the domain at
  \<open>- 4\<close> and rises by \<open>3\<close> per step, so the flag is set after the first step (plane at \<open>- 1\<close>)
  and cleared again by the second (plane at \<open>2\<close>).
\<close>

theorem done_injecting_counterexample:
  "map_sum id (\<lambda>sd. done_injecting_lev (fst sd))
     (Evolve_steps ppc_Evolve_idle codata boosted_back 0
        [(5 / 299792458, 0, 10)] (injecting_at (- 4) False, ())) = Inr True \<and>
   map_sum id (\<lambda>sd. done_injecting_lev (fst sd))
     (Evolve_steps ppc_Evolve_idle codata boosted_back 0
        [(5 / 299792458, 0, 10), (5 / 299792458, 0, 10)] (injecting_at (- 4) False, ())) = Inr False"
  by (simp add: Evolve_def Evolve_plane_def Let_def ppc_Evolve_idle_def injecting_at_def
      boosted_back_def codata_def)

section \<open>PushP: the momentum-only push\<close>

lemma set_momentum_position: "position (set_momentum p u) = position p"
  by (cases u) (simp add: set_momentum_def position_def)

lemma set_momentum_back:
  assumes "position p = position q"
  shows "set_momentum p (momentum q) = q"
  using assms by (cases p, cases q) (simp add: set_momentum_def position_def momentum_def)

lemma position_z: "position p = position q \<Longrightarrow> p_z p = p_z q"
  by (simp add: position_def)

text \<open>A kernel that returns has written slot \<open>ip\<close> of the tile and of the save vectors only.\<close>

lemma PushP_kernel_Inr:
  assumes "PushP_kernel K W st f ion_lev dt ip (a, b) = Inr s'"
  shows "\<exists>u. s' = (a[ip := set_momentum (a ! ip) u], b[ip := Some (momentum (a ! ip))])"
proof (cases "case ion_lev of None \<Rightarrow> Inr (charge st)
                | Some il \<Rightarrow> if ip < length il then Inr (charge st * of_int (il ! ip))
                              else Inl OutOfBounds")
  case (Inl e)
  then show ?thesis using assms by (simp add: PushP_kernel_def Let_def)
next
  case (Inr qp)
  let ?E = "getExternalE K f ip (fst (doGatherShapeN K f (position (a ! ip))))"
  let ?B = "getExternalB K f ip (snd (doGatherShapeN K f (position (a ! ip))))"
  let ?r = "\<lambda>u. (a[ip := set_momentum (a ! ip) u], b[ip := Some (momentum (a ! ip))])"
  have "s' = ?r (UpdateMomentumBorisWithRadiationReaction K (momentum (a ! ip)) ?E ?B qp (mass st) dt) \<or>
        s' = ?r (UpdateMomentumBoris K (momentum (a ! ip)) ?E ?B qp (mass st) dt) \<or>
        s' = ?r (UpdateMomentumVay K (momentum (a ! ip)) ?E ?B qp (mass st) dt) \<or>
        s' = ?r (UpdateMomentumHigueraCary K (momentum (a ! ip)) ?E ?B qp (mass st) dt)"
    using assms Inr by (auto simp: PushP_kernel_def Let_def split: if_splits)
  then show ?thesis by blast
qed

lemma PushP_undo_kernel_Inr:
  assumes "PushP_undo_kernel zz saved i a = Inr a'"
    and "saved ! i = Some u"
  shows "a' = (if p_z (a ! i) \<le> zz then a[i := set_momentum (a ! i) u] else a)"
  using assms by (simp add: PushP_undo_kernel_def split: if_splits)


lemma PushP_first_loop:
  assumes "ParallelFor (length t) (PushP_kernel K W st f ion_lev dt) (t, replicate (length t) None) =
             Inr (t1, saved)"
  shows "length t1 = length t \<and> length saved = length t \<and>
         (\<forall>j < length t. position (t1 ! j) = position (t ! j) \<and>
                           saved ! j = Some (momentum (t ! j)))"
proof -
  let ?n = "length t"
  let ?I = "\<lambda>i s. length (fst s) = ?n \<and> length (snd s) = ?n \<and>
              (\<forall>j < ?n. position (fst s ! j) = position (t ! j)) \<and>
              (\<forall>j < i. snd s ! j = Some (momentum (t ! j))) \<and>
              (\<forall>j < ?n. i \<le> j \<longrightarrow> fst s ! j = t ! j)"
  have init: "?I 0 (t, replicate ?n None)" by simp
  have step: "?I (Suc i) s'"
    if i: "i < ?n" and inv: "?I i s" and k: "PushP_kernel K W st f ion_lev dt i s = Inr s'"
    for i s s'
  proof -
    obtain a b where s: "s = (a, b)" by (cases s) auto
    obtain u where s': "s' = (a[i := set_momentum (a ! i) u], b[i := Some (momentum (a ! i))])"
      using PushP_kernel_Inr[OF k[unfolded s]] by blast
    have la: "length a = ?n" and lb: "length b = ?n"
      and pos: "\<forall>j < ?n. position (a ! j) = position (t ! j)"
      and sv: "\<forall>j < i. b ! j = Some (momentum (t ! j))"
      and un: "\<forall>j < ?n. i \<le> j \<longrightarrow> a ! j = t ! j"
      using inv unfolding s by simp_all
    have ai: "a ! i = t ! i" using un i by simp
    have p': "\<forall>j < ?n. position (a[i := set_momentum (a ! i) u] ! j) = position (t ! j)"
      using pos la i ai by (auto simp: nth_list_update set_momentum_position)
    have s'': "\<forall>j < Suc i. b[i := Some (momentum (a ! i))] ! j = Some (momentum (t ! j))"
      using sv lb i ai by (simp add: nth_list_update less_Suc_eq)
    have u': "\<forall>j < ?n. Suc i \<le> j \<longrightarrow> a[i := set_momentum (a ! i) u] ! j = t ! j"
      using un la i by (auto simp: nth_list_update)
    show ?thesis unfolding s' using la lb p' s'' u' by simp
  qed
  have "?I ?n (t1, saved)"
    by (rule ParallelFor_invariant[where I = ?I and n = ?n
          and body = "PushP_kernel K W st f ion_lev dt", OF init step _ assms]) simp_all
  then show ?thesis by simp
qed

lemma PushP_second_loop:
  assumes "ParallelFor (length t1) (PushP_undo_kernel zz saved) t1 = Inr t'"
    and "length t1 = length t" and "length saved = length t"
    and "\<forall>j < length t. position (t1 ! j) = position (t ! j) \<and> saved ! j = Some (momentum (t ! j))"
  shows "length t' = length t \<and>
         (\<forall>j < length t. position (t' ! j) = position (t ! j) \<and>
                           (p_z (t ! j) \<le> zz \<longrightarrow> t' ! j = t ! j))"
proof -
  let ?n = "length t"
  let ?J = "\<lambda>i a. length a = ?n \<and>
              (\<forall>j < ?n. position (a ! j) = position (t ! j)) \<and>
              (\<forall>j < i. p_z (t ! j) \<le> zz \<longrightarrow> a ! j = t ! j)"
  have init: "?J 0 t1" using assms(2,4) by simp
  have step: "?J (Suc i) a'"
    if i: "i < ?n" and inv: "?J i a" and k: "PushP_undo_kernel zz saved i a = Inr a'"
    for i a a'
  proof -
    have sv: "saved ! i = Some (momentum (t ! i))" using assms(4) i by simp
    have la: "length a = ?n"
      and pos: "\<forall>j < ?n. position (a ! j) = position (t ! j)"
      and dn: "\<forall>j < i. p_z (t ! j) \<le> zz \<longrightarrow> a ! j = t ! j"
      using inv by simp_all
    have pi: "position (a ! i) = position (t ! i)" using pos i by simp
    have a': "a' = (if p_z (t ! i) \<le> zz then a[i := t ! i] else a)"
      using PushP_undo_kernel_Inr[OF k sv] position_z[OF pi] set_momentum_back[OF pi] by simp
    have l': "length a' = ?n" using la a' by simp
    have p': "\<forall>j < ?n. position (a' ! j) = position (t ! j)"
      using pos la i a' by (auto simp: nth_list_update)
    have d': "\<forall>j < Suc i. p_z (t ! j) \<le> zz \<longrightarrow> a' ! j = t ! j"
      using dn la i a' by (auto simp: nth_list_update less_Suc_eq)
    show ?thesis using l' p' d' by simp
  qed
  have "?J (length t1) t'"
    by (rule ParallelFor_invariant[where I = ?J and n = ?n
          and body = "PushP_undo_kernel zz saved", OF init step _ assms(1)])
       (simp_all add: assms(2))
  then show ?thesis using assms(2) by simp
qed

lemma PushP_tile_frame:
  assumes "PushP_tile K W st lev dt f il t = Inr t'"
  shows "length t' = length t \<and>
         (\<forall>j < length t. position (t' ! j) = position (t ! j) \<and>
            (p_z (t ! j) \<le> zinject_plane_levels st ! lev \<longrightarrow> t' ! j = t ! j))"
proof -
  let ?ion = "if do_field_ionization st then Some il else None"
  obtain t1 saved where
    first: "ParallelFor (length t) (PushP_kernel K W st f ?ion dt) (t, replicate (length t) None) =
              Inr (t1, saved)"
    and second: "ParallelFor (length t1)
                   (PushP_undo_kernel (zinject_plane_levels st ! lev) saved) t1 = Inr t'"
    using assms unfolding PushP_tile_def Let_def
    by (auto split: sum.splits prod.splits if_splits)
  note F = PushP_first_loop[OF first]
  show ?thesis
    by (rule PushP_second_loop[OF second]) (use F in simp_all)
qed


lemma PushP_tiles_frame:
  assumes "PushP_tiles K W st lev dt tiles = Inr ts'"
  shows "list_all2 (\<lambda>x t'. length t' = length (snd (snd x)) \<and>
            (\<forall>j < length (snd (snd x)).
               position (t' ! j) = position (snd (snd x) ! j) \<and>
               (p_z (snd (snd x) ! j) \<le> zinject_plane_levels st ! lev \<longrightarrow>
                  t' ! j = snd (snd x) ! j))) tiles ts'"
  using assms
proof (induction tiles arbitrary: ts')
  case Nil
  then show ?case by simp
next
  case (Cons x tiles)
  obtain f il t where x: "x = (f, il, t)" by (cases x) auto
  from Cons.prems obtain t' ts where
    t': "PushP_tile K W st lev dt f il t = Inr t'" and
    ts: "PushP_tiles K W st lev dt tiles = Inr ts" and
    r: "ts' = t' # ts"
    unfolding x by (auto split: sum.splits)
  show ?case
    unfolding r x using PushP_tile_frame[OF t'] Cons.IH[OF ts] by simp
qed

text \<open>
  C9.  \<^verbatim>\<open>PushP\<close> never changes a position: in every tile the three position components of
  every particle are after \<^verbatim>\<open>PushP\<close> what they were before, whatever the pusher, the fields
  and the plane are; and a particle at or below the injection plane of the level is left
  exactly as it was, momentum included.
\<close>

theorem PushP_keeps_positions:
  assumes "PushP K W st lev dt tiles = Inr ts'"
  shows "length ts' = length tiles \<and>
     (\<forall>n < length tiles.
        length (ts' ! n) = length (snd (snd (tiles ! n))) \<and>
        (\<forall>i < length (snd (snd (tiles ! n))).
           p_x (ts' ! n ! i) = p_x (snd (snd (tiles ! n)) ! i) \<and>
           p_y (ts' ! n ! i) = p_y (snd (snd (tiles ! n)) ! i) \<and>
           p_z (ts' ! n ! i) = p_z (snd (snd (tiles ! n)) ! i) \<and>
           (p_z (snd (snd (tiles ! n)) ! i) \<le> zinject_plane_levels st ! lev \<longrightarrow>
              ts' ! n ! i = snd (snd (tiles ! n)) ! i)))"
proof (cases "do_not_push st")
  case True
  then have "ts' = map (\<lambda>x. snd (snd x)) tiles" using assms by (simp add: PushP_def)
  then show ?thesis by simp
next
  case False
  then have "PushP_tiles K W st lev dt tiles = Inr ts'" using assms by (simp add: PushP_def)
  from PushP_tiles_frame[OF this] show ?thesis
    by (simp add: list_all2_conv_all_nth position_def)
qed

text \<open>\<^verbatim>\<open>PushP\<close> returns when the pusher is known and the arrays it indexes are long enough.\<close>

lemma PushP_kernel_returns:
  assumes "do_classical_radiation_reaction st \<or> particle_pusher_algo W \<noteq> UnknownPusher"
    and "do_field_ionization st \<longrightarrow> ip < length il"
  shows "\<exists>s'. PushP_kernel K W st f (if do_field_ionization st then Some il else None) dt ip s = Inr s'"
  using assms
  by (cases s; cases "particle_pusher_algo W") (auto simp: PushP_kernel_def Let_def)

lemma PushP_tile_returns:
  assumes "do_classical_radiation_reaction st \<or> particle_pusher_algo W \<noteq> UnknownPusher"
    and "do_field_ionization st \<longrightarrow> length t \<le> length il"
    and "lev < length (zinject_plane_levels st)"
  shows "\<exists>t'. PushP_tile K W st lev dt f il t = Inr t'"
proof -
  let ?ion = "if do_field_ionization st then Some il else None"
  have "\<exists>s'. ParallelFor (length t) (PushP_kernel K W st f ?ion dt) (t, replicate (length t) None)
          = Inr s'"
  proof (rule ParallelFor_total[where I = "\<lambda>i s. True" and n = "length t"])
    fix i s
    assume "i < length t"
    then have "do_field_ionization st \<longrightarrow> i < length il" using assms(2) by auto
    then show "\<exists>s'. PushP_kernel K W st f ?ion dt i s = Inr s'"
      by (rule PushP_kernel_returns[OF assms(1)])
  qed simp_all
  then obtain t1 saved where
    first: "ParallelFor (length t) (PushP_kernel K W st f ?ion dt) (t, replicate (length t) None)
          = Inr (t1, saved)"
    by (metis surj_pair)
  note F = PushP_first_loop[OF first]
  have "\<exists>t'. ParallelFor (length t1) (PushP_undo_kernel (zinject_plane_levels st ! lev) saved) t1
          = Inr t'"
  proof (rule ParallelFor_total[where I = "\<lambda>i s. True" and n = "length t1"])
    fix i s
    assume "i < length t1"
    then have "saved ! i = Some (momentum (t ! i))" using F by simp
    then show "\<exists>s'. PushP_undo_kernel (zinject_plane_levels st ! lev) saved i s = Inr s'"
      by (simp add: PushP_undo_kernel_def)
  qed simp_all
  then show ?thesis using first assms(3) by (simp add: PushP_tile_def)
qed

lemma PushP_returns:
  assumes "do_classical_radiation_reaction st \<or> particle_pusher_algo W \<noteq> UnknownPusher"
    and "lev < length (zinject_plane_levels st)"
    and "\<forall>x \<in> set tiles. do_field_ionization st \<longrightarrow> length (snd (snd x)) \<le> length (fst (snd x))"
  shows "\<exists>ts'. PushP K W st lev dt tiles = Inr ts'"
proof -
  have "\<exists>ts'. PushP_tiles K W st lev dt tiles = Inr ts'" using assms(3)
  proof (induction tiles)
    case Nil
    then show ?case by simp
  next
    case (Cons x tiles)
    obtain f il t where x: "x = (f, il, t)" by (cases x) auto
    have "do_field_ionization st \<longrightarrow> length t \<le> length il" using Cons.prems x by simp
    from PushP_tile_returns[where K = K and dt = dt and f = f, OF assms(1) this assms(2)]
    obtain t' where t': "PushP_tile K W st lev dt f il t = Inr t'" by blast
    obtain ts where ts: "PushP_tiles K W st lev dt tiles = Inr ts"
      using Cons.IH Cons.prems by auto
    show ?case by (simp add: x t' ts)
  qed
  then show ?thesis by (simp add: PushP_def)
qed

theorem PushP_keeps_positions_witness:
  "\<exists>ts'. PushP kicking_kernels (boosted Boris) (injecting_at 10 False) 0 1
            [((), [], [drifting 0 1, drifting 20 1])] = Inr ts' \<and>
         length ts' = 1 \<and> length (ts' ! 0) = 2 \<and>
         ts' ! 0 ! 0 = drifting 0 1 \<and> p_z (ts' ! 0 ! 1) = 20"
proof -
  have v: "do_classical_radiation_reaction (injecting_at 10 False) \<or>
           particle_pusher_algo (boosted Boris) \<noteq> UnknownPusher"
    by (simp add: boosted_def)
  have l: "0 < length (zinject_plane_levels (injecting_at 10 False))"
    by (simp add: injecting_at_def)
  have i: "\<forall>x \<in> set [((), [], [drifting 0 1, drifting 20 1])].
             do_field_ionization (injecting_at 10 False) \<longrightarrow>
             length (snd (snd x)) \<le> length (fst (snd x))"
    by (simp add: injecting_at_def)
  obtain ts' where r: "PushP kicking_kernels (boosted Boris) (injecting_at 10 False) 0 1
            [((), [], [drifting 0 1, drifting 20 1])] = Inr ts'"
    using PushP_returns[where K = kicking_kernels and dt = 1, OF v l i] by blast
  note P = PushP_keeps_positions[OF r]
  have z: "zinject_plane_levels (injecting_at 10 False) ! 0 = 10"
    by (simp add: injecting_at_def)
  have n: "length ts' = 1" using P by simp
  have t0: "length (ts' ! 0) = 2" using P by simp
  have a: "ts' ! 0 ! 0 = drifting 0 1"
    using P[THEN conjunct2, rule_format, of 0, THEN conjunct2, rule_format, of 0] z
    by (simp add: drifting_def)
  have b: "p_z (ts' ! 0 ! 1) = 20"
    using P[THEN conjunct2, rule_format, of 0, THEN conjunct2, rule_format, of 1]
    by (simp add: drifting_def)
  show ?thesis using r n t0 a b by blast
qed

text \<open>In the same run the particle above the plane has received its kick.\<close>

lemma PushP_run:
  "PushP kicking_kernels (boosted Boris) (injecting_at 10 False) 0 1
     [((), [], [drifting 0 1, drifting 20 1])] =
   Inr [[drifting 0 1, \<lparr> p_x = 0, p_y = 0, p_z = 20, p_ux = 1, p_uy = 1, p_uz = 2 \<rparr>]]"
  by (simp add: PushP_def PushP_tile_def PushP_kernel_def PushP_undo_kernel_def Let_def
      numeral_2_eq_2 kicking_kernels_def kick_def boosted_def injecting_at_def drifting_def
      momentum_def position_def set_momentum_def)


section \<open>Configuration errors\<close>

lemma PushP_kernel_unknown:
  assumes "\<not> do_classical_radiation_reaction st" "particle_pusher_algo W = UnknownPusher"
    and "do_field_ionization st \<longrightarrow> ip < length il"
  shows "PushP_kernel K W st f (if do_field_ionization st then Some il else None) dt ip s =
           Inl (Abort ''Unknown particle pusher'')"
  using assms by (cases s) (auto simp: PushP_kernel_def Let_def)

lemma PushP_tile_unknown:
  assumes "\<not> do_classical_radiation_reaction st" "particle_pusher_algo W = UnknownPusher"
    and "do_field_ionization st \<longrightarrow> length t \<le> length il"
    and "t \<noteq> []"
  shows "PushP_tile K W st lev dt f il t = Inl (Abort ''Unknown particle pusher'')"
proof -
  let ?ion = "if do_field_ionization st then Some il else None"
  have "ParallelFor (length t) (PushP_kernel K W st f ?ion dt) (t, replicate (length t) None) =
          Inl (Abort ''Unknown particle pusher'')"
  proof (rule ParallelFor_fails[where n = "length t"])
    fix i s
    assume "i < length t"
    then have "do_field_ionization st \<longrightarrow> i < length il" using assms(3) by auto
    then show "PushP_kernel K W st f ?ion dt i s = Inl (Abort ''Unknown particle pusher'')"
      by (rule PushP_kernel_unknown[OF assms(1,2)])
  qed (use assms(4) in simp_all)
  then show ?thesis by (simp add: PushP_tile_def)
qed

lemma PushP_tile_empty:
  assumes "lev < length (zinject_plane_levels st)"
  shows "PushP_tile K W st lev dt f il [] = Inr []"
  using assms by (simp add: PushP_tile_def)

lemma PushP_tiles_unknown:
  assumes "\<not> do_classical_radiation_reaction st" "particle_pusher_algo W = UnknownPusher"
    and "lev < length (zinject_plane_levels st)"
  shows "\<forall>x \<in> set tiles. do_field_ionization st \<longrightarrow> length (snd (snd x)) \<le> length (fst (snd x)) \<Longrightarrow>
         \<exists>x \<in> set tiles. snd (snd x) \<noteq> [] \<Longrightarrow>
         PushP_tiles K W st lev dt tiles = Inl (Abort ''Unknown particle pusher'')"
proof (induction tiles)
  case Nil
  then show ?case by simp
next
  case (Cons x tiles)
  obtain f il t where x: "x = (f, il, t)" by (cases x) auto
  have il: "do_field_ionization st \<longrightarrow> length t \<le> length il" using Cons.prems(1) x by simp
  show ?case
  proof (cases "t = []")
    case False
    then show ?thesis
      using PushP_tile_unknown[where K = K and f = f and lev = lev and dt = dt, OF assms(1,2) il False]
      by (simp add: x)
  next
    case True
    then have "\<exists>x \<in> set tiles. snd (snd x) \<noteq> []" using Cons.prems(2) x by simp
    then have "PushP_tiles K W st lev dt tiles = Inl (Abort ''Unknown particle pusher'')"
      using Cons.IH Cons.prems(1) by simp
    then show ?thesis
      using True PushP_tile_empty[where K = K and W = W and f = f and dt = dt and il = il, OF assms(3)]
      by (simp add: x)
  qed
qed

text \<open>
  C6 (as amended).  An unknown pusher algorithm, with radiation reaction off, aborts the
  process as soon as \<^verbatim>\<open>PushP\<close> updates the momentum of a particle; a species name that is not
  accepted aborts in \<^verbatim>\<open>from_string\<close>.  The species \<open>unspecified\<close> is not an error of
  \<^verbatim>\<open>get_charge\<close> and \<^verbatim>\<open>get_mass\<close>: both return a quiet NaN for it, and neither aborts for
  any species.
\<close>

theorem configuration_errors:
  assumes "\<not> do_not_push st" "\<not> do_classical_radiation_reaction st"
    and "particle_pusher_algo W = UnknownPusher"
    and "lev < length (zinject_plane_levels st)"
    and "\<forall>x \<in> set tiles. do_field_ionization st \<longrightarrow> length (snd (snd x)) \<le> length (fst (snd x))"
    and "\<exists>x \<in> set tiles. snd (snd x) \<noteq> []"
  shows "PushP K W st lev dt tiles = Inl (Abort ''Unknown particle pusher'') \<and>
         (\<forall>s. s \<notin> set accepted_names \<longrightarrow> from_string s = Inl (Abort ''unknown PhysicalSpecies'')) \<and>
         get_charge pc unspecified = Inr quiet_NaN \<and>
         get_mass pc unspecified = Inr quiet_NaN \<and>
         (\<forall>ps. \<exists>v. get_charge pc ps = Inr v) \<and> (\<forall>ps. \<exists>v. get_mass pc ps = Inr v)"
proof -
  have p: "PushP K W st lev dt tiles = Inl (Abort ''Unknown particle pusher'')"
    using PushP_tiles_unknown[where K = K and dt = dt, OF assms(2,3,4,5,6)] assms(1)
    by (simp add: PushP_def)
  have f: "\<forall>s. s \<notin> set accepted_names \<longrightarrow> from_string s = Inl (Abort ''unknown PhysicalSpecies'')"
    by (simp add: accepted_names_def canonical_names_def from_string_def)
  have c: "\<exists>v. get_charge pc ps = Inr v" for ps by (cases ps) simp_all
  have m: "\<exists>v. get_mass pc ps = Inr v" for ps by (cases ps) simp_all
  show ?thesis using p f c m by simp
qed

theorem configuration_errors_witness:
  "PushP kicking_kernels (boosted UnknownPusher) (injecting_at 10 False) 0 1
     [((), [], []), ((), [], [drifting 0 1])] = Inl (Abort ''Unknown particle pusher'') \<and>
   from_string ''neutron'' = Inl (Abort ''unknown PhysicalSpecies'')"
proof -
  have h: "\<not> do_not_push (injecting_at 10 False)"
    "\<not> do_classical_radiation_reaction (injecting_at 10 False)"
    "particle_pusher_algo (boosted UnknownPusher) = UnknownPusher"
    "0 < length (zinject_plane_levels (injecting_at 10 False))"
    "\<forall>x \<in> set [((), [], []), ((), [], [drifting 0 1])].
       do_field_ionization (injecting_at 10 False) \<longrightarrow> length (snd (snd x)) \<le> length (fst (snd x))"
    "\<exists>x \<in> set [((), [], []), ((), [], [drifting 0 1])]. snd (snd x) \<noteq> []"
    by (simp_all add: injecting_at_def boosted_def)
  have n: "''neutron'' \<notin> set accepted_names"
    by (simp add: accepted_names_def canonical_names_def)
  note C = configuration_errors[where K = kicking_kernels and dt = 1, OF h]
  show ?thesis using C[THEN conjunct1] C[THEN conjunct2, THEN conjunct1] n by blast
qed

text \<open>
  The claim as first stated has a query of the charge or of the mass of an unspecified
  species terminate the process.  Both calls return, with a quiet NaN.
\<close>

theorem configuration_errors_counterexample:
  "get_charge codata unspecified = Inr quiet_NaN \<and> get_mass codata unspecified = Inr quiet_NaN"
  by simp

end
